theory Spec2Isabelle
  imports Complex_Main
begin

section \<open>The WikiCommons category crawler (wikicommons-scratcher.py)\<close>

text \<open>
  A shallow embedding of \<^verbatim>\<open>src/wikicommons/wikicommons-scratcher.py\<close>.
  The script keeps three pieces of module state (\<^verbatim>\<open>CALLBACK_EXPO\<close>,
  \<^verbatim>\<open>LICENSE_CACHE\<close> and the report file) and talks to the outside through
  \<^verbatim>\<open>requests.get\<close>, \<^verbatim>\<open>random.randint\<close>, \<^verbatim>\<open>time.sleep\<close>,
  \<^verbatim>\<open>print\<close> and \<^verbatim>\<open>sys.exit\<close>. Every function of the script becomes a
  function from a state to an outcome and a new state; the state also logs the effects
  (requests issued, sleeps, lines written) so that statements about them can be made.
\<close>

subsection \<open>Python values and exceptions\<close>

text \<open>
  The value \<^verbatim>\<open>requests.get(url).json()\<close> returns: a parsed JSON document. A
  parsed object is a Python dict, so the keys of a \<open>JObj\<close> are distinct and are kept in
  insertion order. JSON numbers are the integers the API reports; a float value is
  outside this model.
\<close>

datatype json =
    JNull
  | JBool bool
  | JInt int
  | JStr string
  | JArr "json list"
  | JObj "(string \<times> json) list"

datatype exn =
    RequestException
  | KeyError
  | TypeError
  | AttributeError
  | IndexError
  | UnboundLocalError
  | OverflowError

text \<open>
  How a call ends: it returns a value, an exception (a subclass of \<^verbatim>\<open>Exception\<close>)
  leaves it, or \<^verbatim>\<open>sys.exit(code)\<close> was called (\<^verbatim>\<open>SystemExit\<close>, which
  \<^verbatim>\<open>except Exception\<close> does not catch).
\<close>

datatype 'a result = Return 'a | Raise exn | Exit int

datatype response = Fails | Json json

datatype printed = Text string | Repr json | Traceback

record search_data_dict =
  total_file_cnt :: int
  total_page_cnt :: int

text \<open>
  The outside world. \<open>remote w n url\<close> is what the \<open>n\<close>-th request of the process
  (counted from 0) gets when it asks for \<open>url\<close>: \<open>Fails\<close> when
  \<^verbatim>\<open>requests.get(url).json()\<close> raises, the parsed document otherwise.
  \<open>randint w k\<close> is the value of the \<open>k\<close>-th call of \<^verbatim>\<open>random.randint(1, 1000)\<close>.
\<close>

record world =
  remote :: "nat \<Rightarrow> string \<Rightarrow> response"
  randint :: "nat \<Rightarrow> int"

text \<open>
  The module state and the effect logs. \<^verbatim>\<open>LICENSE_CACHE\<close> is a dict whose values
  are all \<^verbatim>\<open>True\<close>: it is modelled by the list of its keys in insertion order.
  \<open>data_file\<close> holds the strings appended to \<^verbatim>\<open>DATA_WRITE_FILE\<close>, which is
  taken to be writable.
\<close>

record state =
  CALLBACK_EXPO :: nat
  LICENSE_CACHE :: "string list"
  requests :: "string list"
  rand_calls :: nat
  slept :: "rat list"
  data_file :: "string list"
  stdout :: "printed list"
  stderr :: "printed list"

definition CALLBACK_INDEX :: nat where
  "CALLBACK_INDEX = 2"

definition MAX_WAIT :: rat where
  "MAX_WAIT = 64"

subsection \<open>Python primitives the script uses\<close>

text \<open>\<^verbatim>\<open>s.replace(old, new)\<close>: every non-overlapping occurrence, from the left.\<close>

fun py_replace :: "string \<Rightarrow> string \<Rightarrow> string \<Rightarrow> string" where
  "py_replace old new [] = (if old = [] then new else [])"
| "py_replace old new (c # cs) =
     (if old = [] then new @ c # py_replace old new cs
      else if take (length old) (c # cs) = old
        then new @ py_replace old new (drop (length old) (c # cs))
      else c # py_replace old new cs)"

text \<open>\<^verbatim>\<open>s.split(sep)\<close> for a separator of one character; never the empty list.\<close>

fun py_split :: "char \<Rightarrow> string \<Rightarrow> string list" where
  "py_split sep [] = [[]]"
| "py_split sep (c # cs) =
     (if c = sep then [] # py_split sep cs
      else (case py_split sep cs of
              [] \<Rightarrow> [[c]]
            | p # ps \<Rightarrow> (c # p) # ps))"

text \<open>\<^verbatim>\<open>str(n)\<close> for an integer, as an f-string renders it.\<close>

definition digit_char :: "nat \<Rightarrow> char" where
  "digit_char d = ''0123456789'' ! d"

fun str_nat :: "nat \<Rightarrow> string" where
  "str_nat n = (if n < 10 then [digit_char n] else str_nat (n div 10) @ [digit_char (n mod 10)])"

declare str_nat.simps [simp del]

definition str_int :: "int \<Rightarrow> string" where
  "str_int i = (if i < 0 then CHR ''-'' # str_nat (nat (- i)) else str_nat (nat i))"

text \<open>\<^verbatim>\<open>needle in hay\<close> for two strings.\<close>

fun is_substring :: "string \<Rightarrow> string \<Rightarrow> bool" where
  "is_substring needle [] = (needle = [])"
| "is_substring needle (c # cs) =
     (take (length needle) (c # cs) = needle \<or> is_substring needle cs)"

text \<open>\<^verbatim>\<open>key in container\<close> for a string key.\<close>

fun py_contains :: "string \<Rightarrow> json \<Rightarrow> exn + bool" where
  "py_contains k (JObj kvs) = Inr (k \<in> set (map fst kvs))"
| "py_contains k (JArr xs) = Inr (JStr k \<in> set xs)"
| "py_contains k (JStr s) = Inr (is_substring k s)"
| "py_contains k _ = Inl TypeError"

text \<open>
  \<^verbatim>\<open>container[key]\<close>. The keys of a parsed object are strings, so any other
  hashable key is absent; a list or a dict as key is unhashable. A list or a string is
  indexed by an integer (a bool is one), negative indices counting from the end.
\<close>

definition py_index :: "'a list \<Rightarrow> int \<Rightarrow> exn + 'a" where
  "py_index xs i =
     (if 0 \<le> i \<and> i < int (length xs) then Inr (xs ! nat i)
      else if i < 0 \<and> - int (length xs) \<le> i then Inr (xs ! nat (int (length xs) + i))
      else Inl IndexError)"

fun py_getitem :: "json \<Rightarrow> json \<Rightarrow> exn + json" where
  "py_getitem (JObj kvs) (JStr k) =
     (case map_of kvs k of None \<Rightarrow> Inl KeyError | Some v \<Rightarrow> Inr v)"
| "py_getitem (JObj kvs) (JArr _) = Inl TypeError"
| "py_getitem (JObj kvs) (JObj _) = Inl TypeError"
| "py_getitem (JObj kvs) _ = Inl KeyError"
| "py_getitem (JArr xs) (JInt i) = py_index xs i"
| "py_getitem (JArr xs) (JBool b) = py_index xs (if b then 1 else 0)"
| "py_getitem (JArr xs) _ = Inl TypeError"
| "py_getitem (JStr s) (JInt i) = map_sum id (\<lambda>c. JStr [c]) (py_index s i)"
| "py_getitem (JStr s) (JBool b) = map_sum id (\<lambda>c. JStr [c]) (py_index s (if b then 1 else 0))"
| "py_getitem (JStr s) _ = Inl TypeError"
| "py_getitem _ _ = Inl TypeError"

text \<open>The items a \<^verbatim>\<open>for\<close> loop takes from a value: the keys of a dict, the
  elements of a list, the characters of a string.\<close>

fun py_iter :: "json \<Rightarrow> exn + json list" where
  "py_iter (JObj kvs) = Inr (map (\<lambda>kv. JStr (fst kv)) kvs)"
| "py_iter (JArr xs) = Inr xs"
| "py_iter (JStr s) = Inr (map (\<lambda>c. JStr [c]) s)"
| "py_iter _ = Inl TypeError"

text \<open>\<^verbatim>\<open>cnt += v\<close> for an integer counter.\<close>

fun py_iadd :: "int \<Rightarrow> json \<Rightarrow> exn + int" where
  "py_iadd n (JInt i) = Inr (n + i)"
| "py_iadd n (JBool b) = Inr (n + (if b then 1 else 0))"
| "py_iadd n _ = Inl TypeError"

text \<open>\<^verbatim>\<open>v.replace(old, new)\<close> on a value that need not be a string.\<close>

fun py_str_replace :: "json \<Rightarrow> string \<Rightarrow> string \<Rightarrow> exn + string" where
  "py_str_replace (JStr s) old new = Inr (py_replace old new s)"
| "py_str_replace _ old new = Inl AttributeError"

text \<open>Sequencing of computations that may raise.\<close>

definition bind_exn :: "exn + 'a \<Rightarrow> ('a \<Rightarrow> exn + 'b) \<Rightarrow> exn + 'b" where
  "bind_exn m f = (case m of Inl e \<Rightarrow> Inl e | Inr v \<Rightarrow> f v)"

subsection \<open>Backoff\<close>

text \<open>
  The value of \<^verbatim>\<open>random.randint(1, 1000) / 1000 + CALLBACK_INDEX**CALLBACK_EXPO\<close>
  for a draw \<open>r\<close> and an exponent \<open>e\<close>, in exact arithmetic. The source computes it
  in floating point; the integer power is exact, and for every draw in \<open>1..1000\<close> the
  comparison with \<^verbatim>\<open>MAX_WAIT\<close> comes out as it does here (the sum is at most 33
  for \<open>e \<le> 5\<close> and more than 64 from \<open>e = 6\<close> on).
\<close>

definition jitter :: "int \<Rightarrow> rat" where
  "jitter r = of_int r / 1000"

definition backoff_value :: "int \<Rightarrow> nat \<Rightarrow> rat" where
  "backoff_value r e = jitter r + of_nat (CALLBACK_INDEX ^ e)"

text \<open>
  \<^verbatim>\<open>expo_backoff()\<close>. Adding the float to an integer power of 1024 bits or more
  raises \<^verbatim>\<open>OverflowError\<close> before anything is slept.
\<close>

definition expo_backoff :: "world \<Rightarrow> state \<Rightarrow> unit result \<times> state" where
  "expo_backoff w s =
     (let r = randint w (rand_calls s);
          s1 = s\<lparr>rand_calls := rand_calls s + 1\<rparr>
      in if 1024 \<le> CALLBACK_EXPO s1 then (Raise OverflowError, s1)
         else
           let backoff = backoff_value r (CALLBACK_EXPO s1);
               s2 = s1\<lparr>slept := slept s1 @ [min backoff MAX_WAIT]\<rparr>
           in if backoff < MAX_WAIT
              then (Return (), s2\<lparr>CALLBACK_EXPO := CALLBACK_EXPO s2 + 1\<rparr>)
              else (Return (), s2))"

definition expo_backoff_reset :: "state \<Rightarrow> state" where
  "expo_backoff_reset s = s\<lparr>CALLBACK_EXPO := 0\<rparr>"

subsection \<open>The two queries\<close>

definition get_content_request_url :: "string \<Rightarrow> string" where
  "get_content_request_url license =
     ''https://commons.wikimedia.org/w/api.php?'' @
     ''action=query&prop=categoryinfo&titles='' @
     ''Category:'' @ license @ ''&format=json''"

definition get_subcat_request_url :: "string \<Rightarrow> string" where
  "get_subcat_request_url license =
     ''https://commons.wikimedia.org/w/api.php?'' @
     ''action=query&cmtitle='' @
     ''Category:'' @ license @
     ''&cmtype=subcat&list=categorymembers&format=json''"

text \<open>What is printed when the script reports an unhandled exception:
  the message, the traceback, and the \<^verbatim>\<open>None\<close> that
  \<^verbatim>\<open>traceback.print_exc()\<close> returns.\<close>

definition unhandled :: "printed list" where
  "unhandled = [Text ''ERROR (1) Unhandled exception:'', Traceback, Text ''None'']"

text \<open>The name appended for one member of the listing (line 117).\<close>

definition member_name :: "json \<Rightarrow> exn + string" where
  "member_name members =
     bind_exn (py_getitem members (JStr ''title'')) (\<lambda>title.
     bind_exn (py_str_replace title ''Category:'' []) (\<lambda>stripped.
     Inr (py_replace ''&'' ''%26'' stripped)))"

text \<open>The loop of lines 115 to 118, on the items still to come and \<^verbatim>\<open>cat_list\<close>.\<close>

fun cat_list_loop :: "json list \<Rightarrow> string list \<Rightarrow> exn + string list" where
  "cat_list_loop [] cat_list = Inr cat_list"
| "cat_list_loop (members # rest) cat_list =
     bind_exn (member_name members) (\<lambda>name. cat_list_loop rest (cat_list @ [name]))"

text \<open>Lines 114 to 119: what the body of the \<^verbatim>\<open>try\<close> computes from
  \<^verbatim>\<open>search_data\<close>.\<close>

definition subcategories_of :: "json \<Rightarrow> exn + string list" where
  "subcategories_of search_data =
     bind_exn (py_getitem search_data (JStr ''query'')) (\<lambda>query.
     bind_exn (py_getitem query (JStr ''categorymembers'')) (\<lambda>members.
     bind_exn (py_iter members) (\<lambda>items.
     cat_list_loop items [])))"

text \<open>
  The body of the \<^verbatim>\<open>try\<close> of \<^verbatim>\<open>get_subcategories\<close>: the request is issued,
  \<^verbatim>\<open>search_data\<close> is bound unless the request raised (\<open>None\<close>: unbound), and the
  list is built or an exception is raised.
\<close>

definition get_subcategories_try ::
  "world \<Rightarrow> string \<Rightarrow> state \<Rightarrow> json option \<times> (exn + string list) \<times> state" where
  "get_subcategories_try w license s =
     (let request_url = get_subcat_request_url license;
          s1 = s\<lparr>requests := requests s @ [request_url]\<rparr>
      in case remote w (length (requests s)) request_url of
           Fails \<Rightarrow> (None, Inl RequestException, s1)
         | Json search_data \<Rightarrow> (Some search_data, subcategories_of search_data, s1))"

text \<open>
  \<^verbatim>\<open>get_subcategories(license, eb)\<close>. The result \<open>Return None\<close> is Python's
  \<^verbatim>\<open>None\<close>, returned when the handler falls off its end. In the handler the value
  of the retried call is dropped, and \<^verbatim>\<open>search_data\<close> may be unbound.
\<close>

function get_subcategories ::
  "world \<Rightarrow> string \<Rightarrow> bool \<Rightarrow> state \<Rightarrow> string list option result \<times> state" where
  "get_subcategories w license eb s =
     (case get_subcategories_try w license s of
        (search_data, Inr cat_list, s1) \<Rightarrow> (Return (Some cat_list), s1)
      | (search_data, Inl e, s1) \<Rightarrow>
          if eb then
            (case expo_backoff w s1 of
               (Return u, s2) \<Rightarrow>
                 (case get_subcategories w license False s2 of
                    (Return v, s3) \<Rightarrow> (Return None, s3)
                  | (Raise x, s3) \<Rightarrow> (Raise x, s3)
                  | (Exit c, s3) \<Rightarrow> (Exit c, s3))
             | (Raise x, s2) \<Rightarrow> (Raise x, s2)
             | (Exit c, s2) \<Rightarrow> (Exit c, s2))
          else
            (case search_data of
               None \<Rightarrow> (Raise UnboundLocalError, s1)
             | Some d \<Rightarrow>
                 (case py_contains ''query'' d of
                    Inl x \<Rightarrow> (Raise x, s1)
                  | Inr False \<Rightarrow>
                      (Return None,
                       s1\<lparr>stdout := stdout s1 @
                          [Repr d,
                           Text ''This query will not be processed due to empty subcats.'']\<rparr>)
                  | Inr True \<Rightarrow> (Exit 1, s1\<lparr>stderr := stderr s1 @ unhandled\<rparr>))))"
  by pat_completeness auto
termination
  by (relation "measure (\<lambda>(w, license, eb, s). if eb then 1 else 0)") auto

declare get_subcategories.simps [simp del]

text \<open>The loop of lines 155 to 158, on the ids still to come and the two counters.\<close>

fun pages_loop :: "json \<Rightarrow> json list \<Rightarrow> int \<Rightarrow> int \<Rightarrow> exn + search_data_dict" where
  "pages_loop pages [] file_cnt page_cnt =
     Inr \<lparr>total_file_cnt = file_cnt, total_page_cnt = page_cnt\<rparr>"
| "pages_loop pages (page_id # ids) file_cnt page_cnt =
     bind_exn (py_getitem pages page_id) (\<lambda>lic_content.
     bind_exn (py_getitem lic_content (JStr ''categoryinfo'')) (\<lambda>info.
     bind_exn (py_getitem info (JStr ''files'')) (\<lambda>files.
     bind_exn (py_iadd file_cnt files) (\<lambda>file_cnt'.
     bind_exn (py_getitem lic_content (JStr ''categoryinfo'')) (\<lambda>info'.
     bind_exn (py_getitem info' (JStr ''pages'')) (\<lambda>pgs.
     bind_exn (py_iadd page_cnt pgs) (\<lambda>page_cnt'.
     pages_loop pages ids file_cnt' page_cnt')))))))"

text \<open>Lines 153 to 163: what the body of the \<^verbatim>\<open>try\<close> computes from
  \<^verbatim>\<open>search_data\<close>.\<close>

definition license_contents_of :: "json \<Rightarrow> exn + search_data_dict" where
  "license_contents_of search_data =
     bind_exn (py_getitem search_data (JStr ''query'')) (\<lambda>query.
     bind_exn (py_getitem query (JStr ''pages'')) (\<lambda>pages.
     bind_exn (py_iter pages) (\<lambda>ids.
     pages_loop pages ids 0 0)))"

definition get_license_contents_try ::
  "world \<Rightarrow> string \<Rightarrow> state \<Rightarrow> json option \<times> (exn + search_data_dict) \<times> state" where
  "get_license_contents_try w license s =
     (let url = get_content_request_url license;
          s1 = s\<lparr>requests := requests s @ [url]\<rparr>
      in case remote w (length (requests s)) url of
           Fails \<Rightarrow> (None, Inl RequestException, s1)
         | Json search_data \<Rightarrow> (Some search_data, license_contents_of search_data, s1))"

text \<open>\<^verbatim>\<open>get_license_contents(license, eb)\<close>; its handler tests the key
  \<^verbatim>\<open>"queries"\<close>.\<close>

function get_license_contents ::
  "world \<Rightarrow> string \<Rightarrow> bool \<Rightarrow> state \<Rightarrow> search_data_dict option result \<times> state" where
  "get_license_contents w license eb s =
     (case get_license_contents_try w license s of
        (search_data, Inr search_data_dict, s1) \<Rightarrow> (Return (Some search_data_dict), s1)
      | (search_data, Inl e, s1) \<Rightarrow>
          if eb then
            (case expo_backoff w s1 of
               (Return u, s2) \<Rightarrow>
                 (case get_license_contents w license False s2 of
                    (Return v, s3) \<Rightarrow> (Return None, s3)
                  | (Raise x, s3) \<Rightarrow> (Raise x, s3)
                  | (Exit c, s3) \<Rightarrow> (Exit c, s3))
             | (Raise x, s2) \<Rightarrow> (Raise x, s2)
             | (Exit c, s2) \<Rightarrow> (Exit c, s2))
          else
            (case search_data of
               None \<Rightarrow> (Raise UnboundLocalError, s1)
             | Some d \<Rightarrow>
                 (case py_contains ''queries'' d of
                    Inl x \<Rightarrow> (Raise x, s1)
                  | Inr False \<Rightarrow>
                      (Return None,
                       s1\<lparr>stdout := stdout s1 @
                          [Repr d,
                           Text ''This query will not be processed due to empty result.'']\<rparr>)
                  | Inr True \<Rightarrow> (Exit 1, s1\<lparr>stderr := stderr s1 @ unhandled\<rparr>))))"
  by pat_completeness auto
termination
  by (relation "measure (\<lambda>(w, license, eb, s). if eb then 1 else 0)") auto

declare get_license_contents.simps [simp del]

subsection \<open>The report and the traversal\<close>

definition set_up_data_file :: "state \<Rightarrow> state" where
  "set_up_data_file s =
     s\<lparr>data_file := data_file s @ [''LICENSE TYPE,File Count, Page Count'' @ [CHR 0x0A]]\<rparr>"

text \<open>The string \<^verbatim>\<open>data_log\<close> of \<^verbatim>\<open>record_license_data\<close>.\<close>

definition data_log :: "string \<Rightarrow> search_data_dict \<Rightarrow> string" where
  "data_log license_alias search_result =
     license_alias @ '','' @ str_int (total_file_cnt search_result) @ '','' @
     str_int (total_page_cnt search_result)"

text \<open>
  \<^verbatim>\<open>record_license_data(license_type, license_alias)\<close>: subscripting the
  \<^verbatim>\<open>None\<close> that \<^verbatim>\<open>get_license_contents\<close> may return raises
  \<^verbatim>\<open>TypeError\<close>, before anything is written.
\<close>

definition record_license_data :: "world \<Rightarrow> string \<Rightarrow> string \<Rightarrow> state \<Rightarrow> unit result \<times> state" where
  "record_license_data w license_type license_alias s =
     (case get_license_contents w license_type False s of
        (Return None, s1) \<Rightarrow> (Raise TypeError, s1)
      | (Return (Some search_result), s1) \<Rightarrow>
          (Return (),
           s1\<lparr>data_file := data_file s1 @ [data_log license_alias search_result @ [CHR 0x0A]]\<rparr>)
      | (Raise x, s1) \<Rightarrow> (Raise x, s1)
      | (Exit c, s1) \<Rightarrow> (Exit c, s1))"

text \<open>\<^verbatim>\<open>alias.split("/")[-1]\<close>.\<close>

definition cur_cat_of :: "string \<Rightarrow> string" where
  "cur_cat_of alias = last (py_split CHR ''/'' alias)"

text \<open>A \<^verbatim>\<open>for\<close> loop whose body is a call that may not return: the loop stops at
  the first call that raises or exits. \<open>None\<close> is a body that ran out of fuel.\<close>

fun for_each ::
  "('a \<Rightarrow> state \<Rightarrow> (unit result \<times> state) option) \<Rightarrow> 'a list \<Rightarrow> state
   \<Rightarrow> (unit result \<times> state) option" where
  "for_each body [] s = Some (Return (), s)"
| "for_each body (x # xs) s =
     (case body x s of
        None \<Rightarrow> None
      | Some (Return u, s1) \<Rightarrow> for_each body xs s1
      | Some (Raise e, s1) \<Rightarrow> Some (Raise e, s1)
      | Some (Exit c, s1) \<Rightarrow> Some (Exit c, s1))"

text \<open>
  \<^verbatim>\<open>recur_record_all_licenses(alias)\<close>. The first argument bounds the depth of
  the recursion: \<open>None\<close> means the bound was reached, and says nothing about the script.
  The subcategories are requested before the cache is looked at; iterating over the
  \<^verbatim>\<open>None\<close> that \<^verbatim>\<open>get_subcategories\<close> may return raises \<^verbatim>\<open>TypeError\<close>.
\<close>

fun recur_record_all_licenses ::
  "nat \<Rightarrow> world \<Rightarrow> string \<Rightarrow> state \<Rightarrow> (unit result \<times> state) option" where
  "recur_record_all_licenses 0 w alias s = None"
| "recur_record_all_licenses (Suc fuel) w alias s =
     (let cur_cat = cur_cat_of alias
      in case get_subcategories w cur_cat False s of
           (Raise x, s1) \<Rightarrow> Some (Raise x, s1)
         | (Exit c, s1) \<Rightarrow> Some (Exit c, s1)
         | (Return subcategories, s1) \<Rightarrow>
             if cur_cat \<in> set (LICENSE_CACHE s1) then Some (Return (), s1)
             else
               (case record_license_data w cur_cat alias s1 of
                  (Raise x, s2) \<Rightarrow> Some (Raise x, s2)
                | (Exit c, s2) \<Rightarrow> Some (Exit c, s2)
                | (Return u, s2) \<Rightarrow>
                    (let s3 = s2\<lparr>LICENSE_CACHE := LICENSE_CACHE s2 @ [cur_cat]\<rparr>;
                         s4 = s3\<lparr>stdout := stdout s3 @
                                [Text (''DEBUG '' @ ''Logged '' @ cur_cat @ '' from '' @ alias)]\<rparr>
                     in case subcategories of
                          None \<Rightarrow> Some (Raise TypeError, s4)
                        | Some cat_list \<Rightarrow>
                            for_each
                              (\<lambda>cats. recur_record_all_licenses fuel w (alias @ ''/'' @ cats))
                              cat_list s4)))"

text \<open>\<^verbatim>\<open>main()\<close>, the name of the report file left aside, and the block under
  \<^verbatim>\<open>if __name__ == "__main__"\<close>, which gives the exit status of the process.\<close>

definition main :: "nat \<Rightarrow> world \<Rightarrow> state \<Rightarrow> (unit result \<times> state) option" where
  "main fuel w s =
     recur_record_all_licenses fuel w ''Free_Creative_Commons_licenses'' (set_up_data_file s)"

definition script :: "nat \<Rightarrow> world \<Rightarrow> state \<Rightarrow> (int \<times> state) option" where
  "script fuel w s =
     (case main fuel w s of
        None \<Rightarrow> None
      | Some (Return u, s1) \<Rightarrow> Some (0, s1)
      | Some (Exit c, s1) \<Rightarrow> Some (c, s1)
      | Some (Raise x, s1) \<Rightarrow> Some (1, s1\<lparr>stderr := stderr s1 @ unhandled\<rparr>))"

text \<open>The state of a fresh process.\<close>

definition init_state :: state where
  "init_state =
     \<lparr>CALLBACK_EXPO = 0, LICENSE_CACHE = [], requests = [], rand_calls = 0, slept = [],
      data_file = [], stdout = [], stderr = []\<rparr>"

section \<open>Scenarios\<close>

text \<open>Concrete worlds and documents on which the script is run below.\<close>

text \<open>A world without network in which every draw of \<^verbatim>\<open>random.randint\<close> is \<open>r\<close>.\<close>

definition world_draw :: "int \<Rightarrow> world" where
  "world_draw r = \<lparr>remote = (\<lambda>n url. Fails), randint = (\<lambda>k. r)\<rparr>"

text \<open>
  The name of a subcategory as the specification words it, for comparison with
  \<open>member_name\<close>: the namespace prefix of the title is stripped, and every ampersand is
  escaped.
\<close>

definition spec_escape_ampersands :: "string \<Rightarrow> string" where
  "spec_escape_ampersands s = concat (map (\<lambda>c. if c = CHR ''&'' then ''%26'' else [c]) s)"

definition spec_strip_prefix :: "string \<Rightarrow> string" where
  "spec_strip_prefix title =
     (if take (length ''Category:'') title = ''Category:''
      then drop (length ''Category:'') title else title)"

definition spec_subcategory_name :: "string \<Rightarrow> string" where
  "spec_subcategory_name title = spec_escape_ampersands (spec_strip_prefix title)"

text \<open>A content document with two page ids, reporting 3 files and 5 pages, and 1 file
  and 2 pages.\<close>

definition two_pages :: json where
  "two_pages =
     JObj [(''batchcomplete'', JStr []),
           (''query'', JObj [(''pages'', JObj
              [(''101'', JObj [(''pageid'', JInt 101),
                  (''categoryinfo'', JObj [(''size'', JInt 5), (''pages'', JInt 5), (''files'', JInt 3)])]),
               (''102'', JObj [(''pageid'', JInt 102),
                  (''categoryinfo'', JObj [(''size'', JInt 2), (''pages'', JInt 2), (''files'', JInt 1)])])])])]"

text \<open>A world in which every request is answered with one document.\<close>

definition world_always :: "json \<Rightarrow> world" where
  "world_always d = \<lparr>remote = (\<lambda>n url. Json d), randint = (\<lambda>k. 1)\<rparr>"

text \<open>The documents of the API: a listing of members with the given titles, and the
  content information of a category with one page id.\<close>

definition listing_doc :: "string list \<Rightarrow> json" where
  "listing_doc titles =
     JObj [(''batchcomplete'', JStr []),
           (''query'', JObj [(''categorymembers'',
              JArr (map (\<lambda>t. JObj [(''ns'', JInt 14), (''title'', JStr t)]) titles))])]"

definition content_doc :: "int \<Rightarrow> int \<Rightarrow> json" where
  "content_doc files pgs =
     JObj [(''batchcomplete'', JStr []),
           (''query'', JObj [(''pages'', JObj
              [(''7'', JObj [(''ns'', JInt 14),
                 (''categoryinfo'', JObj [(''pages'', JInt pgs), (''files'', JInt files)])])])])]"

text \<open>A document that parses but has no \<^verbatim>\<open>query\<close>.\<close>

definition no_query_doc :: json where
  "no_query_doc = JObj [(''batchcomplete'', JStr [])]"

text \<open>
  A remote that answers the same at every time: the listing request for a category with
  the document \<open>subcats\<close> gives for it, the content request with the document \<open>contents\<close>
  gives, and any other request fails.
\<close>

definition remote_of ::
  "(string \<times> json) list \<Rightarrow> (string \<times> json) list \<Rightarrow> nat \<Rightarrow> string \<Rightarrow> response" where
  "remote_of subcats contents n url =
     (case map_of (map (\<lambda>(c, d). (get_subcat_request_url c, d)) subcats) url of
        Some d \<Rightarrow> Json d
      | None \<Rightarrow>
          (case map_of (map (\<lambda>(c, d). (get_content_request_url c, d)) contents) url of
             Some d \<Rightarrow> Json d
           | None \<Rightarrow> Fails))"

text \<open>Root \<^verbatim>\<open>A\<close> with 2 files and 4 pages and the one subcategory \<^verbatim>\<open>B\<close>, which has
  no file, 1 page and no subcategory.\<close>

definition world_AB :: world where
  "world_AB =
     \<lparr>remote = remote_of
        [(''A'', listing_doc [''Category:B'']), (''B'', listing_doc [])]
        [(''A'', content_doc 2 4), (''B'', content_doc 0 1)],
      randint = (\<lambda>k. 1)\<rparr>"

text \<open>A cycle: \<^verbatim>\<open>A\<close> lists \<^verbatim>\<open>B\<close>, and \<^verbatim>\<open>B\<close> lists \<^verbatim>\<open>A\<close>.\<close>

definition world_cycle :: world where
  "world_cycle =
     \<lparr>remote = remote_of
        [(''A'', listing_doc [''Category:B'']), (''B'', listing_doc [''Category:A''])]
        [(''A'', content_doc 2 4), (''B'', content_doc 0 1)],
      randint = (\<lambda>k. 1)\<rparr>"

text \<open>The default root with two subcategories; the content request for the first of them,
  \<^verbatim>\<open>X\<close>, is answered without a \<^verbatim>\<open>query\<close>.\<close>

definition world_empty_result :: world where
  "world_empty_result =
     \<lparr>remote = remote_of
        [(''Free_Creative_Commons_licenses'', listing_doc [''Category:X'', ''Category:Y'']),
         (''X'', listing_doc []), (''Y'', listing_doc [])]
        [(''Free_Creative_Commons_licenses'', content_doc 2 4),
         (''X'', no_query_doc), (''Y'', content_doc 0 1)],
      randint = (\<lambda>k. 1)\<rparr>"

text \<open>The listing of \<^verbatim>\<open>A\<close> has no \<^verbatim>\<open>query\<close>; its content request is answered.\<close>

definition world_empty_subcats :: world where
  "world_empty_subcats =
     \<lparr>remote = remote_of [(''A'', no_query_doc)] [(''A'', content_doc 2 4)],
      randint = (\<lambda>k. 1)\<rparr>"

text \<open>A remote whose first answer fails and whose later answers are those of
  \<open>world_AB\<close>: a transient failure.\<close>

definition world_flaky :: world where
  "world_flaky =
     \<lparr>remote = (\<lambda>n url. if n = 0 then Fails else remote world_AB n url),
      randint = (\<lambda>k. 500)\<rparr>"

text \<open>The line \<^verbatim>\<open>record_license_data\<close> appends for an alias and the metrics it was
  given.\<close>

definition report_row :: "string \<times> search_data_dict \<Rightarrow> string" where
  "report_row row = data_log (fst row) (snd row) @ [CHR 0x0A]"

text \<open>What a run adds to the report and to the cache: one row and one key at a time.\<close>

definition rows_added :: "state \<Rightarrow> state \<Rightarrow> bool" where
  "rows_added s s' \<longleftrightarrow>
     (\<exists>rows. data_file s' = data_file s @ map report_row rows
        \<and> LICENSE_CACHE s' = LICENSE_CACHE s @ map (\<lambda>row. cur_cat_of (fst row)) rows
        \<and> (distinct (LICENSE_CACHE s) \<longrightarrow> distinct (LICENSE_CACHE s')))"

section \<open>The traversal as the specification words it\<close>









text \<open>The root \<^verbatim>\<open>A\<close> lists the one title \<^verbatim>\<open>Category:X Category:Y\<close>, the category
  named \<^verbatim>\<open>X Category:Y\<close>, which the remote knows; it knows no category \<^verbatim>\<open>X Y\<close>.\<close>

definition world_inner_prefix :: world where
  "world_inner_prefix =
     \<lparr>remote = remote_of
        [(''A'', listing_doc [''Category:X Category:Y'']), (''X Category:Y'', listing_doc [])]
        [(''A'', content_doc 2 4), (''X Category:Y'', content_doc 0 1)],
      randint = (\<lambda>k. 1)\<rparr>"

section \<open>Properties\<close>

subsection \<open>The two queries, by the value of \<^verbatim>\<open>eb\<close>\<close>

lemma get_subcategories_False:
  "get_subcategories w license False s =
     (case get_subcategories_try w license s of
        (search_data, Inr cat_list, s1) \<Rightarrow> (Return (Some cat_list), s1)
      | (search_data, Inl e, s1) \<Rightarrow>
         (case search_data of
            None \<Rightarrow> (Raise UnboundLocalError, s1)
          | Some d \<Rightarrow>
          (case py_contains ''query'' d of
             Inl x \<Rightarrow> (Raise x, s1)
           | Inr False \<Rightarrow>
               (Return None,
                s1\<lparr>stdout := stdout s1 @
                   [Repr d, Text ''This query will not be processed due to empty subcats.'']\<rparr>)
           | Inr True \<Rightarrow> (Exit 1, s1\<lparr>stderr := stderr s1 @ unhandled\<rparr>))))"
  by (subst get_subcategories.simps) (simp split: prod.split sum.split)

lemma get_subcategories_True:
  "get_subcategories w license True s =
     (case get_subcategories_try w license s of
        (search_data, Inr cat_list, s1) \<Rightarrow> (Return (Some cat_list), s1)
      | (search_data, Inl e, s1) \<Rightarrow>
          (case expo_backoff w s1 of
             (Return u, s2) \<Rightarrow>
               (case get_subcategories w license False s2 of
                  (Return v, s3) \<Rightarrow> (Return None, s3)
                | (Raise x, s3) \<Rightarrow> (Raise x, s3)
                | (Exit c, s3) \<Rightarrow> (Exit c, s3))
           | (Raise x, s2) \<Rightarrow> (Raise x, s2)
           | (Exit c, s2) \<Rightarrow> (Exit c, s2)))"
  by (subst get_subcategories.simps) (simp split: prod.split sum.split)

lemma get_license_contents_False:
  "get_license_contents w license False s =
     (case get_license_contents_try w license s of
        (search_data, Inr dict, s1) \<Rightarrow> (Return (Some dict), s1)
      | (search_data, Inl e, s1) \<Rightarrow>
         (case search_data of
            None \<Rightarrow> (Raise UnboundLocalError, s1)
          | Some d \<Rightarrow>
          (case py_contains ''queries'' d of
             Inl x \<Rightarrow> (Raise x, s1)
           | Inr False \<Rightarrow>
               (Return None,
                s1\<lparr>stdout := stdout s1 @
                   [Repr d, Text ''This query will not be processed due to empty result.'']\<rparr>)
           | Inr True \<Rightarrow> (Exit 1, s1\<lparr>stderr := stderr s1 @ unhandled\<rparr>))))"
  by (subst get_license_contents.simps) (simp split: prod.split sum.split)

lemma get_license_contents_True:
  "get_license_contents w license True s =
     (case get_license_contents_try w license s of
        (search_data, Inr dict, s1) \<Rightarrow> (Return (Some dict), s1)
      | (search_data, Inl e, s1) \<Rightarrow>
          (case expo_backoff w s1 of
             (Return u, s2) \<Rightarrow>
               (case get_license_contents w license False s2 of
                  (Return v, s3) \<Rightarrow> (Return None, s3)
                | (Raise x, s3) \<Rightarrow> (Raise x, s3)
                | (Exit c, s3) \<Rightarrow> (Exit c, s3))
           | (Raise x, s2) \<Rightarrow> (Raise x, s2)
           | (Exit c, s2) \<Rightarrow> (Exit c, s2)))"
  by (subst get_license_contents.simps) (simp split: prod.split sum.split)

subsection \<open>Backoff\<close>

lemma pow2_ge_64: "6 \<le> e \<Longrightarrow> (64::nat) \<le> 2 ^ e"
proof -
  assume "6 \<le> e"
  then have "(2::nat) ^ 6 \<le> 2 ^ e" by (intro power_increasing) simp_all
  then show ?thesis by simp
qed

lemma pow2_le_32: "e \<le> 5 \<Longrightarrow> (2::nat) ^ e \<le> 32"
proof -
  assume "e \<le> 5"
  then have "(2::nat) ^ e \<le> 2 ^ 5" by (intro power_increasing) simp_all
  then show ?thesis by simp
qed

lemma backoff_below_cap:
  assumes "1 \<le> r" "r \<le> 1000"
  shows "backoff_value r e < MAX_WAIT \<longleftrightarrow> e \<le> 5"
proof
  assume lt: "backoff_value r e < MAX_WAIT"
  show "e \<le> 5"
  proof (rule ccontr)
    assume "\<not> e \<le> 5"
    then have "(64::nat) \<le> 2 ^ e" by (intro pow2_ge_64) simp
    then have "(64::rat) \<le> of_nat (2 ^ e)" by (metis of_nat_le_iff of_nat_numeral)
    moreover have "0 < jitter r" using assms by (simp add: jitter_def)
    ultimately show False using lt
      by (simp add: backoff_value_def MAX_WAIT_def CALLBACK_INDEX_def)
  qed
next
  assume "e \<le> 5"
  then have "(2::nat) ^ e \<le> 32" by (rule pow2_le_32)
  then have "(of_nat (2 ^ e) :: rat) \<le> 32" by (metis of_nat_le_iff of_nat_numeral)
  moreover have "jitter r \<le> 1" using assms by (simp add: jitter_def)
  ultimately show "backoff_value r e < MAX_WAIT"
    by (simp add: backoff_value_def MAX_WAIT_def CALLBACK_INDEX_def)
qed

lemma backoff_value_mono:
  assumes "e \<le> e'" "r \<le> r'"
  shows "backoff_value r e \<le> backoff_value r' e'"
proof -
  have "(2::nat) ^ e \<le> 2 ^ e'" using assms(1) by (intro power_increasing) simp_all
  then have "(of_nat (2 ^ e) :: rat) \<le> of_nat (2 ^ e')" by (simp only: of_nat_le_iff)
  moreover have "jitter r \<le> jitter r'" using assms(2) by (simp add: jitter_def divide_right_mono)
  ultimately show ?thesis by (simp add: backoff_value_def CALLBACK_INDEX_def add_mono)
qed

text \<open>
  Claim C8. For a draw in \<open>1..1000\<close>, a call of \<^verbatim>\<open>expo_backoff\<close> sleeps at most
  once, for the unclamped delay capped at \<^verbatim>\<open>MAX_WAIT\<close>, so never for more than 64
  seconds; it increments the exponent exactly when the unclamped delay is below
  \<^verbatim>\<open>MAX_WAIT\<close> and leaves it alone otherwise, so an exponent that started at most 6
  stays at most 6; and the smallest delay the call could take is at most any delay the
  next call can take.
\<close>

theorem expo_backoff_bounded:
  assumes draw: "1 \<le> randint w (rand_calls s)" "randint w (rand_calls s) \<le> 1000"
    and run: "expo_backoff w s = (res, s')"
  shows "(slept s' = slept s \<or>
          slept s' = slept s @ [min (backoff_value (randint w (rand_calls s)) (CALLBACK_EXPO s)) MAX_WAIT])
       \<and> (\<forall>d \<in> set (slept s'). d \<in> set (slept s) \<or> d \<le> MAX_WAIT)
       \<and> (CALLBACK_EXPO s' = CALLBACK_EXPO s + 1
            \<longleftrightarrow> backoff_value (randint w (rand_calls s)) (CALLBACK_EXPO s) < MAX_WAIT)
       \<and> (CALLBACK_EXPO s' = CALLBACK_EXPO s \<or> CALLBACK_EXPO s' = CALLBACK_EXPO s + 1)
       \<and> (CALLBACK_EXPO s \<le> 6 \<longrightarrow> CALLBACK_EXPO s' \<le> 6)
       \<and> (\<forall>r'. 1 \<le> r' \<longrightarrow>
             min (backoff_value 1 (CALLBACK_EXPO s)) MAX_WAIT
               \<le> min (backoff_value r' (CALLBACK_EXPO s')) MAX_WAIT)"
proof -
  let ?r = "randint w (rand_calls s)"
  let ?e = "CALLBACK_EXPO s"
  have iff: "backoff_value ?r ?e < MAX_WAIT \<longleftrightarrow> ?e \<le> 5"
    using draw by (rule backoff_below_cap)
  have mono: "min (backoff_value 1 ?e) MAX_WAIT \<le> min (backoff_value r' e') MAX_WAIT"
    if "?e \<le> e'" "1 \<le> r'" for r' e'
    using backoff_value_mono [OF that] by (simp add: min_le_iff_disj)
  show ?thesis
  proof (cases "1024 \<le> ?e")
    case True
    then have "s' = s\<lparr>rand_calls := rand_calls s + 1\<rparr>"
      using run by (simp add: expo_backoff_def Let_def)
    then show ?thesis using True iff mono by simp
  next
    case False
    show ?thesis
    proof (cases "?e \<le> 5")
      case True
      then have "s' = s\<lparr>rand_calls := rand_calls s + 1,
          slept := slept s @ [min (backoff_value ?r ?e) MAX_WAIT], CALLBACK_EXPO := ?e + 1\<rparr>"
        using run False iff by (simp add: expo_backoff_def Let_def)
      then show ?thesis using True iff mono by auto
    next
      case big: False
      then have "s' = s\<lparr>rand_calls := rand_calls s + 1,
          slept := slept s @ [min (backoff_value ?r ?e) MAX_WAIT]\<rparr>"
        using run False iff by (simp add: expo_backoff_def Let_def)
      then show ?thesis using big iff mono by auto
    qed
  qed
qed

theorem expo_backoff_bounded_witness:
  "1 \<le> randint (world_draw 500) (rand_calls init_state)
   \<and> randint (world_draw 500) (rand_calls init_state) \<le> 1000
   \<and> slept (snd (expo_backoff (world_draw 500) init_state)) = [3 / 2]
   \<and> CALLBACK_EXPO (snd (expo_backoff (world_draw 500) init_state)) = 1
   \<and> backoff_value (randint (world_draw 500) (rand_calls init_state))
         (CALLBACK_EXPO init_state) < MAX_WAIT"
proof -
  have draw: "1 \<le> randint (world_draw 500) (rand_calls init_state)"
    "randint (world_draw 500) (rand_calls init_state) \<le> 1000"
    by (simp_all add: world_draw_def)
  have run: "expo_backoff (world_draw 500) init_state =
      (Return (), init_state\<lparr>rand_calls := 1, slept := [3 / 2], CALLBACK_EXPO := 1\<rparr>)"
    by (simp add: expo_backoff_def world_draw_def init_state_def backoff_value_def jitter_def
        CALLBACK_INDEX_def MAX_WAIT_def Let_def)
  show ?thesis
    using expo_backoff_bounded [OF draw run] draw run by (simp add: init_state_def)
qed

text \<open>
  Claim C9. The jitter is \<^verbatim>\<open>random.randint(1, 1000) / 1000\<close>, and
  \<^verbatim>\<open>randint\<close> includes both ends: the draw 1000 gives the jitter 1, which is more
  than 0.999, and the first wait then lasts 2 seconds.
\<close>

theorem jitter_reaches_one:
  "jitter 1000 = 1 \<and> \<not> jitter 1000 \<le> 999 / 1000
   \<and> slept (snd (expo_backoff (world_draw 1000) init_state)) = [2]"
  by (simp add: jitter_def expo_backoff_def world_draw_def init_state_def backoff_value_def
      CALLBACK_INDEX_def MAX_WAIT_def Let_def)

subsection \<open>Names of subcategories\<close>

lemma py_replace_char:
  "py_replace [c] new s = concat (map (\<lambda>x. if x = c then new else [x]) s)"
  by (induction s) simp_all

lemma py_replace_absent:
  "old \<noteq> [] \<Longrightarrow> \<not> is_substring old s \<Longrightarrow> py_replace old new s = s"
  by (induction s) simp_all

lemma py_replace_prefix:
  assumes "old \<noteq> []"
  shows "py_replace old new (old @ rest) = new @ py_replace old new rest"
proof -
  obtain c cs where oc: "old = c # cs" using assms by (cases old) auto
  have "py_replace old new ((c # cs) @ rest) = new @ py_replace old new rest"
    using assms by (simp add: oc)
  then show ?thesis by (simp add: oc)
qed

lemma no_ampersand_left: "CHR ''&'' \<notin> set (spec_escape_ampersands s)"
  by (induction s) (simp_all add: spec_escape_ampersands_def)

lemma member_name_title:
  assumes "py_getitem members (JStr ''title'') = Inr (JStr title)"
  shows "member_name members = Inr (spec_escape_ampersands (py_replace ''Category:'' [] title))"
  using assms
  by (simp add: member_name_def bind_exn_def spec_escape_ampersands_def py_replace_char)

text \<open>
  Where the script gives the name the specification words: the title, with its prefix
  stripped, holds no further \<^verbatim>\<open>Category:\<close>.
\<close>

lemma member_name_agrees:
  assumes title: "py_getitem members (JStr ''title'') = Inr (JStr title)"
    and rest: "\<not> is_substring ''Category:'' (spec_strip_prefix title)"
  shows "member_name members = Inr (spec_subcategory_name title)"
proof (cases "take (length ''Category:'') title = ''Category:''")
  case True
  then have split: "title = ''Category:'' @ drop (length ''Category:'') title"
    by (metis append_take_drop_id)
  have strip: "spec_strip_prefix title = drop (length ''Category:'') title"
    using True by (simp add: spec_strip_prefix_def)
  have "py_replace ''Category:'' [] title =
      py_replace ''Category:'' [] (drop (length ''Category:'') title)"
    by (subst split, subst py_replace_prefix) simp_all
  also have "\<dots> = drop (length ''Category:'') title"
    using rest unfolding strip by (intro py_replace_absent) simp_all
  finally show ?thesis
    using member_name_title [OF title] strip by (simp add: spec_subcategory_name_def)
next
  case False
  then have strip: "spec_strip_prefix title = title" by (simp add: spec_strip_prefix_def)
  have "py_replace ''Category:'' [] title = title"
    using rest unfolding strip by (intro py_replace_absent) simp_all
  then show ?thesis
    using member_name_title [OF title] strip by (simp add: spec_subcategory_name_def)
qed

subsection \<open>Content metrics\<close>

lemma pages_loop_sum:
  assumes "distinct (map fst pages)"
  shows "set ps \<subseteq> set pages \<Longrightarrow>
    list_all2 (\<lambda>kv fp. \<exists>info.
        py_getitem (snd kv) (JStr ''categoryinfo'') = Inr info
      \<and> py_getitem info (JStr ''files'') = Inr (JInt (fst fp))
      \<and> py_getitem info (JStr ''pages'') = Inr (JInt (snd fp))) ps counts \<Longrightarrow>
    pages_loop (JObj pages) (map (\<lambda>kv. JStr (fst kv)) ps) a b =
      Inr \<lparr>total_file_cnt = a + sum_list (map fst counts),
           total_page_cnt = b + sum_list (map snd counts)\<rparr>"
proof (induction ps arbitrary: counts a b)
  case Nil
  then show ?case by simp
next
  case (Cons kv ps)
  from Cons.prems(2) obtain fp rest where counts: "counts = fp # rest"
    and rest: "list_all2 (\<lambda>kv fp. \<exists>info.
        py_getitem (snd kv) (JStr ''categoryinfo'') = Inr info
      \<and> py_getitem info (JStr ''files'') = Inr (JInt (fst fp))
      \<and> py_getitem info (JStr ''pages'') = Inr (JInt (snd fp))) ps rest"
    and here: "\<exists>info. py_getitem (snd kv) (JStr ''categoryinfo'') = Inr info
      \<and> py_getitem info (JStr ''files'') = Inr (JInt (fst fp))
      \<and> py_getitem info (JStr ''pages'') = Inr (JInt (snd fp))"
    by (auto simp: list_all2_Cons1)
  from here obtain info where info: "py_getitem (snd kv) (JStr ''categoryinfo'') = Inr info"
    "py_getitem info (JStr ''files'') = Inr (JInt (fst fp))"
    "py_getitem info (JStr ''pages'') = Inr (JInt (snd fp))" by blast
  have "kv \<in> set pages" using Cons.prems(1) by simp
  then have "(fst kv, snd kv) \<in> set pages" by simp
  then have look: "map_of pages (fst kv) = Some (snd kv)"
    using assms by (rule map_of_is_SomeI [rotated])
  have tail: "pages_loop (JObj pages) (map (\<lambda>kv. JStr (fst kv)) ps) (a + fst fp) (b + snd fp) =
      Inr \<lparr>total_file_cnt = (a + fst fp) + sum_list (map fst rest),
           total_page_cnt = (b + snd fp) + sum_list (map snd rest)\<rparr>"
    using Cons.prems(1) rest by (intro Cons.IH) simp_all
  show ?case
    by (simp add: bind_exn_def look info tail counts add.assoc)
qed

text \<open>
  Claim C6. When the document has a \<^verbatim>\<open>query\<close> with a \<^verbatim>\<open>pages\<close> object, and every
  entry of it has a \<^verbatim>\<open>categoryinfo\<close> with integer \<^verbatim>\<open>files\<close> and \<^verbatim>\<open>pages\<close>,
  \<^verbatim>\<open>get_license_contents\<close> returns the sum of the file counts and the sum of the page
  counts over all the entries (\<open>counts\<close> lists the two counts of each entry, in the order
  of the entries), whatever \<^verbatim>\<open>eb\<close> is, and issues one request. For the document with
  two page ids reporting 3 files and 5 pages, and 1 file and 2 pages, the result is
  4 files and 7 pages.
\<close>

theorem get_license_contents_sums:
  assumes resp: "remote w (length (requests s)) (get_content_request_url license) = Json search_data"
    and query: "py_getitem search_data (JStr ''query'') = Inr query"
    and pages: "py_getitem query (JStr ''pages'') = Inr (JObj pages)"
    and keys: "distinct (map fst pages)"
    and entries: "list_all2 (\<lambda>kv fp. \<exists>info.
        py_getitem (snd kv) (JStr ''categoryinfo'') = Inr info
      \<and> py_getitem info (JStr ''files'') = Inr (JInt (fst fp))
      \<and> py_getitem info (JStr ''pages'') = Inr (JInt (snd fp))) pages counts"
  shows "get_license_contents w license eb s =
      (Return (Some \<lparr>total_file_cnt = sum_list (map fst counts),
                     total_page_cnt = sum_list (map snd counts)\<rparr>),
       s\<lparr>requests := requests s @ [get_content_request_url license]\<rparr>)"
proof -
  have "pages_loop (JObj pages) (map (\<lambda>kv. JStr (fst kv)) pages) 0 0 =
      Inr \<lparr>total_file_cnt = 0 + sum_list (map fst counts),
           total_page_cnt = 0 + sum_list (map snd counts)\<rparr>"
    using keys entries by (intro pages_loop_sum) simp_all
  then have "license_contents_of search_data =
      Inr \<lparr>total_file_cnt = sum_list (map fst counts),
           total_page_cnt = sum_list (map snd counts)\<rparr>"
    by (simp add: license_contents_of_def bind_exn_def query pages)
  then have "get_license_contents_try w license s =
      (Some search_data,
       Inr \<lparr>total_file_cnt = sum_list (map fst counts),
            total_page_cnt = sum_list (map snd counts)\<rparr>,
       s\<lparr>requests := requests s @ [get_content_request_url license]\<rparr>)"
    by (simp add: get_license_contents_try_def resp Let_def)
  then show ?thesis
    by (subst get_license_contents.simps) simp
qed

theorem get_license_contents_sums_witness:
  "get_license_contents (world_always two_pages) ''CC-BY'' False init_state =
      (Return (Some \<lparr>total_file_cnt = 4, total_page_cnt = 7\<rparr>),
       init_state\<lparr>requests := [get_content_request_url ''CC-BY'']\<rparr>)"
proof -
  let ?pages = "[(''101'', JObj [(''pageid'', JInt 101),
                  (''categoryinfo'', JObj [(''size'', JInt 5), (''pages'', JInt 5), (''files'', JInt 3)])]),
               (''102'', JObj [(''pageid'', JInt 102),
                  (''categoryinfo'', JObj [(''size'', JInt 2), (''pages'', JInt 2), (''files'', JInt 1)])])]"
  have 1: "remote (world_always two_pages) (length (requests init_state))
      (get_content_request_url ''CC-BY'') = Json two_pages"
    by (simp add: world_always_def)
  have 2: "py_getitem two_pages (JStr ''query'') = Inr (JObj [(''pages'', JObj ?pages)])"
    by (simp add: two_pages_def)
  have 3: "py_getitem (JObj [(''pages'', JObj ?pages)]) (JStr ''pages'') = Inr (JObj ?pages)"
    by simp
  have 4: "distinct (map fst ?pages)" by simp
  have 5: "list_all2 (\<lambda>kv fp. \<exists>info.
        py_getitem (snd kv) (JStr ''categoryinfo'') = Inr info
      \<and> py_getitem info (JStr ''files'') = Inr (JInt (fst fp))
      \<and> py_getitem info (JStr ''pages'') = Inr (JInt (snd fp))) ?pages [(3, 5), (1, 2)]"
    by simp
  show ?thesis
    using get_license_contents_sums [OF 1 2 3 4 5, of False] by (simp add: init_state_def)
qed

subsection \<open>What each call changes\<close>

lemma get_subcategories_try_state:
  "get_subcategories_try w c s = (sd, b, s1) \<Longrightarrow>
     s1 = s\<lparr>requests := requests s @ [get_subcat_request_url c]\<rparr>"
  by (auto simp: get_subcategories_try_def Let_def split: response.splits)

lemma get_license_contents_try_state:
  "get_license_contents_try w c s = (sd, b, s1) \<Longrightarrow>
     s1 = s\<lparr>requests := requests s @ [get_content_request_url c]\<rparr>"
  by (auto simp: get_license_contents_try_def Let_def split: response.splits)

lemma get_subcategories_False_frame:
  assumes "get_subcategories w c False s = (r, s')"
  shows "requests s' = requests s @ [get_subcat_request_url c]"
    and "LICENSE_CACHE s' = LICENSE_CACHE s" and "data_file s' = data_file s"
    and "CALLBACK_EXPO s' = CALLBACK_EXPO s" and "slept s' = slept s"
    and "rand_calls s' = rand_calls s"
  using assms
  by (auto simp: get_subcategories_False dest!: get_subcategories_try_state
      split: prod.splits sum.splits option.splits bool.splits)

lemma get_license_contents_False_frame:
  assumes "get_license_contents w c False s = (r, s')"
  shows "requests s' = requests s @ [get_content_request_url c]"
    and "LICENSE_CACHE s' = LICENSE_CACHE s" and "data_file s' = data_file s"
    and "CALLBACK_EXPO s' = CALLBACK_EXPO s" and "slept s' = slept s"
    and "rand_calls s' = rand_calls s"
  using assms
  by (auto simp: get_license_contents_False dest!: get_license_contents_try_state
      split: prod.splits sum.splits option.splits bool.splits)

lemma get_subcategories_Some:
  assumes "get_subcategories w c False s = (Return (Some cats), s')"
  shows "\<exists>d. remote w (length (requests s)) (get_subcat_request_url c) = Json d
             \<and> subcategories_of d = Inr cats"
  using assms
  by (auto simp: get_subcategories_False get_subcategories_try_def Let_def
      split: prod.splits sum.splits option.splits bool.splits response.splits)

lemma record_license_data_frame:
  assumes "record_license_data w c alias s = (r, s')"
  shows "requests s' = requests s @ [get_content_request_url c]"
    and "LICENSE_CACHE s' = LICENSE_CACHE s"
    and "CALLBACK_EXPO s' = CALLBACK_EXPO s" and "slept s' = slept s"
    and "rand_calls s' = rand_calls s"
    and "(\<exists>u. r = Return u) \<Longrightarrow>
           \<exists>d. data_file s' = data_file s @ [data_log alias d @ [CHR 0x0A]]"
    and "(\<forall>u. r \<noteq> Return u) \<Longrightarrow> data_file s' = data_file s"
  using assms
  by (auto simp: record_license_data_def
      dest: get_license_contents_False_frame
      split: prod.splits result.splits option.splits)

lemma recur_Suc_cases:
  assumes "recur_record_all_licenses (Suc fuel) w alias s = Some (r, s')"
  obtains
    (listing_aborts) sr where "get_subcategories w (cur_cat_of alias) False s = (sr, s')"
      "\<forall>v. sr \<noteq> Return v" "\<forall>u. r \<noteq> Return u"
  | (visited) subs where "get_subcategories w (cur_cat_of alias) False s = (Return subs, s')"
      "cur_cat_of alias \<in> set (LICENSE_CACHE s')" "r = Return ()"
  | (record_aborts) subs s1 where
      "get_subcategories w (cur_cat_of alias) False s = (Return subs, s1)"
      "cur_cat_of alias \<notin> set (LICENSE_CACHE s1)"
      "record_license_data w (cur_cat_of alias) alias s1 = (r, s')" "\<forall>u. r \<noteq> Return u"
  | (no_list) s1 s2 u where
      "get_subcategories w (cur_cat_of alias) False s = (Return None, s1)"
      "cur_cat_of alias \<notin> set (LICENSE_CACHE s1)"
      "record_license_data w (cur_cat_of alias) alias s1 = (Return u, s2)"
      "r = Raise TypeError"
      "s' = s2\<lparr>LICENSE_CACHE := LICENSE_CACHE s2 @ [cur_cat_of alias],
               stdout := stdout s2 @
                 [Text (''DEBUG '' @ ''Logged '' @ cur_cat_of alias @ '' from '' @ alias)]\<rparr>"
  | (descends) cat_list s1 s2 u where
      "get_subcategories w (cur_cat_of alias) False s = (Return (Some cat_list), s1)"
      "cur_cat_of alias \<notin> set (LICENSE_CACHE s1)"
      "record_license_data w (cur_cat_of alias) alias s1 = (Return u, s2)"
      "for_each (\<lambda>cats. recur_record_all_licenses fuel w (alias @ ''/'' @ cats)) cat_list
         (s2\<lparr>LICENSE_CACHE := LICENSE_CACHE s2 @ [cur_cat_of alias],
             stdout := stdout s2 @
               [Text (''DEBUG '' @ ''Logged '' @ cur_cat_of alias @ '' from '' @ alias)]\<rparr>)
        = Some (r, s')"
proof (cases "get_subcategories w (cur_cat_of alias) False s")
  case (Pair sr s1)
  show ?thesis
  proof (cases sr)
    case (Return subs)
    show ?thesis
    proof (cases "cur_cat_of alias \<in> set (LICENSE_CACHE s1)")
      case True
      then show ?thesis using assms Pair Return visited by (simp add: Let_def)
    next
      case False
      show ?thesis
      proof (cases "record_license_data w (cur_cat_of alias) alias s1")
        case rec: (Pair rr s2)
        show ?thesis
        proof (cases rr)
          case ret: (Return u)
          show ?thesis
          proof (cases subs)
            case None
            then show ?thesis
              using assms Pair Return False rec ret no_list [of s1 u s2] by (simp add: Let_def)
          next
            case (Some cat_list)
            then show ?thesis
              using assms Pair Return False rec ret descends [of cat_list s1 u s2]
              by (simp add: Let_def)
          qed
        next
          case (Raise x)
          then show ?thesis
            using assms Pair Return False rec record_aborts [of subs s1] by (auto simp: Let_def)
        next
          case (Exit c)
          then show ?thesis
            using assms Pair Return False rec record_aborts [of subs s1] by (auto simp: Let_def)
        qed
      qed
    qed
  next
    case (Raise x)
    then show ?thesis using assms Pair listing_aborts [of sr] by (auto simp: Let_def)
  next
    case (Exit c)
    then show ?thesis using assms Pair listing_aborts [of sr] by (auto simp: Let_def)
  qed
qed

lemma for_each_rel:
  assumes refl: "\<And>s. R s s" and trans: "\<And>a b c. R a b \<Longrightarrow> R b c \<Longrightarrow> R a c"
    and step: "\<And>x s r s'. x \<in> set xs \<Longrightarrow> body x s = Some (r, s') \<Longrightarrow> R s s'"
  shows "for_each body xs s = Some (r, s') \<Longrightarrow> R s s'"
  using step
proof (induction xs arbitrary: s)
  case Nil
  then show ?case using refl by simp
next
  case (Cons x xs)
  from Cons.prems(1) obtain r1 s1 where b: "body x s = Some (r1, s1)"
    by (cases "body x s") auto
  have R1: "R s s1" using Cons.prems(2) [of x s r1 s1] b by simp
  show ?case
  proof (cases r1)
    case (Return u)
    then have "for_each body xs s1 = Some (r, s')" using Cons.prems(1) b by simp
    then have "R s1 s'" using Cons.prems(2) by (intro Cons.IH) auto
    then show ?thesis using R1 trans by blast
  next
    case (Raise e)
    then show ?thesis using Cons.prems(1) b R1 by simp
  next
    case (Exit c)
    then show ?thesis using Cons.prems(1) b R1 by simp
  qed
qed

lemma recur_no_backoff:
  "recur_record_all_licenses fuel w alias s = Some (r, s') \<Longrightarrow>
     slept s' = slept s \<and> CALLBACK_EXPO s' = CALLBACK_EXPO s \<and> rand_calls s' = rand_calls s"
proof (induction fuel arbitrary: "alias" s r s')
  case 0
  then show ?case by simp
next
  case (Suc fuel)
  from Suc.prems show ?case
  proof (cases rule: recur_Suc_cases)
    case (listing_aborts sr)
    then show ?thesis by (simp add: get_subcategories_False_frame)
  next
    case (visited subs)
    then show ?thesis by (simp add: get_subcategories_False_frame)
  next
    case (record_aborts subs s1)
    then show ?thesis
      by (simp add: get_subcategories_False_frame record_license_data_frame)
  next
    case (no_list s1 s2 u)
    then show ?thesis
      by (simp add: get_subcategories_False_frame record_license_data_frame)
  next
    case (descends cat_list s1 s2 u)
    let ?s4 = "s2\<lparr>LICENSE_CACHE := LICENSE_CACHE s2 @ [cur_cat_of alias],
             stdout := stdout s2 @
               [Text (''DEBUG '' @ ''Logged '' @ cur_cat_of alias @ '' from '' @ alias)]\<rparr>"
    have "slept s' = slept ?s4 \<and> CALLBACK_EXPO s' = CALLBACK_EXPO ?s4
        \<and> rand_calls s' = rand_calls ?s4"
      by (rule for_each_rel [where R = "\<lambda>a b. slept b = slept a \<and>
            CALLBACK_EXPO b = CALLBACK_EXPO a \<and> rand_calls b = rand_calls a",
            OF _ _ _ descends(4)]) (auto dest: Suc.IH)
    then show ?thesis using descends(1,3)
      by (simp add: get_subcategories_False_frame record_license_data_frame)
  qed
qed

subsection \<open>Running the script on the scenarios\<close>

text \<open>The equations that evaluate the script on a concrete world.\<close>

lemmas eval_defs =
  get_subcategories_False get_license_contents_False get_subcategories_True get_license_contents_True
  get_subcategories_try_def get_license_contents_try_def
  subcategories_of_def license_contents_of_def member_name_def bind_exn_def
  record_license_data_def data_log_def cur_cat_of_def Let_def
  get_subcat_request_url_def get_content_request_url_def
  remote_of_def listing_doc_def content_doc_def no_query_doc_def
  init_state_def set_up_data_file_def main_def script_def unhandled_def
  str_int_def str_nat.simps digit_char_def expo_backoff_def backoff_value_def jitter_def
  CALLBACK_INDEX_def MAX_WAIT_def

subsection \<open>A title that holds the prefix twice\<close>

text \<open>
  Claim C7. On the title \<^verbatim>\<open>Category:Things & Stuff\<close> the script gives
  \<^verbatim>\<open>Things %26 Stuff\<close>, as the claim says. On the title
  \<^verbatim>\<open>Category:A Category:B\<close>, the category named \<^verbatim>\<open>A Category:B\<close>, stripping the
  prefix leaves \<^verbatim>\<open>A Category:B\<close>, but \<^verbatim>\<open>replace("Category:", "")\<close> removes the
  second occurrence too and the script gives \<^verbatim>\<open>A B\<close>, which names another category.
  The request builders put \<^verbatim>\<open>Category:\<close> back in front of the name: in a world where
  \<^verbatim>\<open>A\<close> lists \<^verbatim>\<open>Category:X Category:Y\<close>, the traversal goes on to request the
  subcategories of \<^verbatim>\<open>X Y\<close>, not of the listed category, and the run ends there.
\<close>

theorem member_name_not_only_prefix:
  "member_name (JObj [(''ns'', JInt 14), (''title'', JStr ''Category:Things & Stuff'')])
     = Inr ''Things %26 Stuff''
   \<and> member_name (JObj [(''title'', JStr ''Category:A Category:B'')]) = Inr ''A B''
   \<and> spec_subcategory_name ''Category:A Category:B'' = ''A Category:B''
   \<and> member_name (JObj [(''title'', JStr ''Category:A Category:B'')])
       \<noteq> Inr (spec_subcategory_name ''Category:A Category:B'')
   \<and> recur_record_all_licenses (Suc (Suc 0)) world_inner_prefix ''A'' init_state =
       Some (Raise UnboundLocalError,
         \<lparr>CALLBACK_EXPO = 0, LICENSE_CACHE = [''A''],
          requests = [get_subcat_request_url ''A'', get_content_request_url ''A'',
                      get_subcat_request_url ''X Y''],
          rand_calls = 0, slept = [],
          data_file = [''A,2,4'' @ [CHR 0x0A]],
          stdout = [Text ''DEBUG Logged A from A''],
          stderr = []\<rparr>)"
  by (simp add: eval_defs world_inner_prefix_def spec_subcategory_name_def
      spec_strip_prefix_def spec_escape_ampersands_def)

subsection \<open>What the handlers return\<close>

lemma get_subcategories_handler:
  assumes "fst (snd (get_subcategories_try w license s)) = Inl e"
    and "get_subcategories w license eb s = (Return v, s')"
  shows "v = None"
proof (cases eb)
  case True
  then show ?thesis using assms
    by (auto simp: get_subcategories_True split: prod.splits sum.splits result.splits)
next
  case False
  then show ?thesis using assms
    by (auto simp: get_subcategories_False
        split: prod.splits sum.splits option.splits bool.splits)
qed

lemma get_license_contents_handler:
  assumes "fst (snd (get_license_contents_try w license s)) = Inl e"
    and "get_license_contents w license eb s = (Return v, s')"
  shows "v = None"
proof (cases eb)
  case True
  then show ?thesis using assms
    by (auto simp: get_license_contents_True split: prod.splits sum.splits result.splits)
next
  case False
  then show ?thesis using assms
    by (auto simp: get_license_contents_False
        split: prod.splits sum.splits option.splits bool.splits)
qed

text \<open>
  Claim C10. When the body of the \<^verbatim>\<open>try\<close> raises and the call still returns (the
  retry branch with \<^verbatim>\<open>eb\<close> set, or the diagnostic branch), \<^verbatim>\<open>get_subcategories\<close>
  and \<^verbatim>\<open>get_license_contents\<close> return \<^verbatim>\<open>None\<close>, never a list or a dictionary.
  The callers do not test for it: \<^verbatim>\<open>record_license_data\<close> raises \<^verbatim>\<open>TypeError\<close>
  when it subscripts the \<^verbatim>\<open>None\<close>, and \<^verbatim>\<open>recur_record_all_licenses\<close> raises
  \<^verbatim>\<open>TypeError\<close> when it iterates over the \<^verbatim>\<open>None\<close>, after the row of the category
  was written and the category was marked.
\<close>

theorem handler_returns_None:
  "(fst (snd (get_subcategories_try w license s)) = Inl e
      \<and> get_subcategories w license eb s = (Return v, s') \<longrightarrow> v = None)
 \<and> (fst (snd (get_license_contents_try w license s)) = Inl e'
      \<and> get_license_contents w license eb s = (Return v', s'') \<longrightarrow> v' = None)
 \<and> (get_license_contents w license_type False s = (Return None, s1)
      \<longrightarrow> record_license_data w license_type license_alias s = (Raise TypeError, s1))
 \<and> (get_subcategories w (cur_cat_of alias) False s = (Return None, t1)
      \<and> cur_cat_of alias \<notin> set (LICENSE_CACHE t1)
      \<and> record_license_data w (cur_cat_of alias) alias t1 = (Return (), t2)
      \<longrightarrow> (\<exists>t3. recur_record_all_licenses (Suc fuel) w alias s = Some (Raise TypeError, t3)
             \<and> data_file t3 = data_file t2
             \<and> LICENSE_CACHE t3 = LICENSE_CACHE t2 @ [cur_cat_of alias]))"
proof (intro conjI impI)
  assume "fst (snd (get_subcategories_try w license s)) = Inl e
      \<and> get_subcategories w license eb s = (Return v, s')"
  then show "v = None" using get_subcategories_handler by blast
next
  assume "fst (snd (get_license_contents_try w license s)) = Inl e'
      \<and> get_license_contents w license eb s = (Return v', s'')"
  then show "v' = None" using get_license_contents_handler by blast
next
  assume "get_license_contents w license_type False s = (Return None, s1)"
  then show "record_license_data w license_type license_alias s = (Raise TypeError, s1)"
    by (simp add: record_license_data_def)
next
  assume "get_subcategories w (cur_cat_of alias) False s = (Return None, t1)
      \<and> cur_cat_of alias \<notin> set (LICENSE_CACHE t1)
      \<and> record_license_data w (cur_cat_of alias) alias t1 = (Return (), t2)"
  then show "\<exists>t3. recur_record_all_licenses (Suc fuel) w alias s = Some (Raise TypeError, t3)
             \<and> data_file t3 = data_file t2
             \<and> LICENSE_CACHE t3 = LICENSE_CACHE t2 @ [cur_cat_of alias]"
    by (simp add: Let_def)
qed

theorem handler_returns_None_witness:
  "fst (snd (get_subcategories_try world_flaky ''A'' init_state)) = Inl RequestException
 \<and> fst (get_subcategories world_flaky ''A'' True init_state) = Return None
 \<and> fst (snd (get_license_contents_try world_empty_result ''X'' init_state)) = Inl KeyError
 \<and> fst (get_license_contents world_empty_result ''X'' False init_state) = Return None
 \<and> fst (record_license_data world_empty_result ''X'' ''R/X'' init_state) = Raise TypeError
 \<and> fst (get_subcategories world_empty_subcats (cur_cat_of ''A'') False init_state) = Return None
 \<and> map_option fst (recur_record_all_licenses (Suc 0) world_empty_subcats ''A'' init_state)
      = Some (Raise TypeError)"
proof -
  have a1: "fst (snd (get_subcategories_try world_flaky ''A'' init_state)) = Inl RequestException"
    by (simp add: eval_defs world_flaky_def)
  obtain v sa where a2: "get_subcategories world_flaky ''A'' True init_state = (Return v, sa)"
    by (simp add: eval_defs world_flaky_def world_AB_def)
  have b1: "fst (snd (get_license_contents_try world_empty_result ''X'' init_state)) = Inl KeyError"
    by (simp add: eval_defs world_empty_result_def)
  obtain v' sb where
    b2: "get_license_contents world_empty_result ''X'' False init_state = (Return v', sb)"
    by (simp add: eval_defs world_empty_result_def)
  obtain t1 where d1: "get_subcategories world_empty_subcats (cur_cat_of ''A'') False init_state
      = (Return None, t1)" and d2: "cur_cat_of ''A'' \<notin> set (LICENSE_CACHE t1)"
    by (simp add: eval_defs world_empty_subcats_def)
  obtain t2 where
    d3: "record_license_data world_empty_subcats (cur_cat_of ''A'') ''A'' t1 = (Return (), t2)"
    using d1 by (auto simp: eval_defs world_empty_subcats_def)
  have c1: "v = None"
    using a1 a2 handler_returns_None [where w = world_flaky and license = "''A''"
        and s = init_state and eb = True and v = v and s' = sa] by blast
  have c2: "v' = None"
    using b1 b2 handler_returns_None [where w = world_empty_result and license = "''X''"
        and s = init_state and eb = False and v' = v' and s'' = sb] by blast
  have c3: "record_license_data world_empty_result ''X'' ''R/X'' init_state = (Raise TypeError, sb)"
    using b2 c2 handler_returns_None [where w = world_empty_result and license_type = "''X''"
        and s = init_state and ?s1.0 = sb and license_alias = "''R/X''"] by blast
  have c4: "\<exists>t3. recur_record_all_licenses (Suc 0) world_empty_subcats ''A'' init_state
      = Some (Raise TypeError, t3)"
    using d1 d2 d3 handler_returns_None [where w = world_empty_subcats
        and s = init_state and ?t1.0 = t1 and ?t2.0 = t2 and fuel = 0] by blast
  show ?thesis using a1 a2 c1 b1 b2 c2 c3 c4 d1 by auto
qed

subsection \<open>Failed requests\<close>

lemma expo_backoff_small:
  assumes "CALLBACK_EXPO s < 1024"
  shows "\<exists>s2. expo_backoff w s = (Return (), s2)
      \<and> requests s2 = requests s
      \<and> slept s2 = slept s @ [min (backoff_value (randint w (rand_calls s)) (CALLBACK_EXPO s)) MAX_WAIT]"
  using assms by (simp add: expo_backoff_def Let_def)

lemma get_subcategories_retry:
  assumes fails: "fst (snd (get_subcategories_try w license s)) = Inl e"
    and small: "CALLBACK_EXPO s < 1024"
  shows "requests (snd (get_subcategories w license True s)) =
           requests s @ [get_subcat_request_url license, get_subcat_request_url license]"
    and "slept (snd (get_subcategories w license True s)) =
           slept s @ [min (backoff_value (randint w (rand_calls s)) (CALLBACK_EXPO s)) MAX_WAIT]"
    and "requests (snd (get_subcategories w license False s)) =
           requests s @ [get_subcat_request_url license]"
    and "slept (snd (get_subcategories w license False s)) = slept s"
proof -
  obtain sd s1 where t: "get_subcategories_try w license s = (sd, Inl e, s1)"
    using fails by (cases "get_subcategories_try w license s") auto
  have s1: "s1 = s\<lparr>requests := requests s @ [get_subcat_request_url license]\<rparr>"
    using t by (rule get_subcategories_try_state)
  then have "CALLBACK_EXPO s1 < 1024" using small by simp
  from expo_backoff_small [OF this, of w] obtain s2 where
    b: "expo_backoff w s1 = (Return (), s2)" and r2: "requests s2 = requests s1"
    and sl2: "slept s2 = slept s1 @
        [min (backoff_value (randint w (rand_calls s1)) (CALLBACK_EXPO s1)) MAX_WAIT]"
    by blast
  obtain r3 s3 where again: "get_subcategories w license False s2 = (r3, s3)"
    by (cases "get_subcategories w license False s2") auto
  have "snd (get_subcategories w license True s) = s3"
    using t b again by (cases r3) (simp_all add: get_subcategories_True)
  then show "requests (snd (get_subcategories w license True s)) =
           requests s @ [get_subcat_request_url license, get_subcat_request_url license]"
    and "slept (snd (get_subcategories w license True s)) =
           slept s @ [min (backoff_value (randint w (rand_calls s)) (CALLBACK_EXPO s)) MAX_WAIT]"
    using get_subcategories_False_frame [OF again] r2 sl2 s1 by simp_all
  obtain r4 s4 where once: "get_subcategories w license False s = (r4, s4)"
    by (cases "get_subcategories w license False s") auto
  then show "requests (snd (get_subcategories w license False s)) =
           requests s @ [get_subcat_request_url license]"
    and "slept (snd (get_subcategories w license False s)) = slept s"
    using get_subcategories_False_frame [OF once] by simp_all
qed

lemma get_license_contents_retry:
  assumes fails: "fst (snd (get_license_contents_try w license s)) = Inl e"
    and small: "CALLBACK_EXPO s < 1024"
  shows "requests (snd (get_license_contents w license True s)) =
           requests s @ [get_content_request_url license, get_content_request_url license]"
    and "slept (snd (get_license_contents w license True s)) =
           slept s @ [min (backoff_value (randint w (rand_calls s)) (CALLBACK_EXPO s)) MAX_WAIT]"
    and "requests (snd (get_license_contents w license False s)) =
           requests s @ [get_content_request_url license]"
    and "slept (snd (get_license_contents w license False s)) = slept s"
proof -
  obtain sd s1 where t: "get_license_contents_try w license s = (sd, Inl e, s1)"
    using fails by (cases "get_license_contents_try w license s") auto
  have s1: "s1 = s\<lparr>requests := requests s @ [get_content_request_url license]\<rparr>"
    using t by (rule get_license_contents_try_state)
  then have "CALLBACK_EXPO s1 < 1024" using small by simp
  from expo_backoff_small [OF this, of w] obtain s2 where
    b: "expo_backoff w s1 = (Return (), s2)" and r2: "requests s2 = requests s1"
    and sl2: "slept s2 = slept s1 @
        [min (backoff_value (randint w (rand_calls s1)) (CALLBACK_EXPO s1)) MAX_WAIT]"
    by blast
  obtain r3 s3 where again: "get_license_contents w license False s2 = (r3, s3)"
    by (cases "get_license_contents w license False s2") auto
  have "snd (get_license_contents w license True s) = s3"
    using t b again by (cases r3) (simp_all add: get_license_contents_True)
  then show "requests (snd (get_license_contents w license True s)) =
           requests s @ [get_content_request_url license, get_content_request_url license]"
    and "slept (snd (get_license_contents w license True s)) =
           slept s @ [min (backoff_value (randint w (rand_calls s)) (CALLBACK_EXPO s)) MAX_WAIT]"
    using get_license_contents_False_frame [OF again] r2 sl2 s1 by simp_all
  obtain r4 s4 where once: "get_license_contents w license False s = (r4, s4)"
    by (cases "get_license_contents w license False s") auto
  then show "requests (snd (get_license_contents w license False s)) =
           requests s @ [get_content_request_url license]"
    and "slept (snd (get_license_contents w license False s)) = slept s"
    using get_license_contents_False_frame [OF once] by simp_all
qed

text \<open>
  Claim C3, as the code has it. A query routes a failure of its \<^verbatim>\<open>try\<close> body through
  \<^verbatim>\<open>expo_backoff\<close> only when it was called with \<^verbatim>\<open>eb\<close> set: it then sleeps once
  and issues the request once more (two requests in all); called without \<^verbatim>\<open>eb\<close> it
  issues one request and never sleeps. The traversal calls both queries without
  \<^verbatim>\<open>eb\<close>: whatever the remote answers, a run of \<^verbatim>\<open>recur_record_all_licenses\<close> never
  sleeps, never draws a random number and leaves \<^verbatim>\<open>CALLBACK_EXPO\<close> as it was.
\<close>

theorem backoff_only_when_asked:
  "(fst (snd (get_subcategories_try w license s)) = Inl e \<and> CALLBACK_EXPO s < 1024 \<longrightarrow>
      requests (snd (get_subcategories w license True s)) =
        requests s @ [get_subcat_request_url license, get_subcat_request_url license]
    \<and> slept (snd (get_subcategories w license True s)) =
        slept s @ [min (backoff_value (randint w (rand_calls s)) (CALLBACK_EXPO s)) MAX_WAIT]
    \<and> requests (snd (get_subcategories w license False s)) =
        requests s @ [get_subcat_request_url license]
    \<and> slept (snd (get_subcategories w license False s)) = slept s)
 \<and> (fst (snd (get_license_contents_try w license s)) = Inl e' \<and> CALLBACK_EXPO s < 1024 \<longrightarrow>
      requests (snd (get_license_contents w license True s)) =
        requests s @ [get_content_request_url license, get_content_request_url license]
    \<and> slept (snd (get_license_contents w license True s)) =
        slept s @ [min (backoff_value (randint w (rand_calls s)) (CALLBACK_EXPO s)) MAX_WAIT]
    \<and> requests (snd (get_license_contents w license False s)) =
        requests s @ [get_content_request_url license]
    \<and> slept (snd (get_license_contents w license False s)) = slept s)
 \<and> (recur_record_all_licenses fuel w alias s = Some (r, s') \<longrightarrow>
      slept s' = slept s \<and> CALLBACK_EXPO s' = CALLBACK_EXPO s \<and> rand_calls s' = rand_calls s)"
  using get_subcategories_retry [of w license s e] get_license_contents_retry [of w license s e']
    recur_no_backoff [of fuel w "alias" s r s']
  by blast

theorem backoff_only_when_asked_witness:
  "fst (snd (get_subcategories_try world_flaky ''A'' init_state)) = Inl RequestException
 \<and> CALLBACK_EXPO init_state < 1024
 \<and> length (requests (snd (get_subcategories world_flaky ''A'' True init_state))) = 2
 \<and> slept (snd (get_subcategories world_flaky ''A'' True init_state)) = [3 / 2]
 \<and> length (requests (snd (get_subcategories world_flaky ''A'' False init_state))) = 1
 \<and> slept (snd (get_subcategories world_flaky ''A'' False init_state)) = []
 \<and> fst (snd (get_license_contents_try world_flaky ''A'' init_state)) = Inl RequestException
 \<and> length (requests (snd (get_license_contents world_flaky ''A'' True init_state))) = 2
 \<and> slept (snd (get_license_contents world_flaky ''A'' True init_state)) = [3 / 2]
 \<and> map_option (slept \<circ> snd)
      (recur_record_all_licenses (Suc (Suc 0)) world_AB ''A'' init_state) = Some []
 \<and> map_option (CALLBACK_EXPO \<circ> snd)
      (recur_record_all_licenses (Suc (Suc 0)) world_AB ''A'' init_state) = Some 0"
proof -
  have a: "fst (snd (get_subcategories_try world_flaky ''A'' init_state)) = Inl RequestException"
    by (simp add: eval_defs world_flaky_def)
  have b: "fst (snd (get_license_contents_try world_flaky ''A'' init_state)) = Inl RequestException"
    by (simp add: eval_defs world_flaky_def)
  have c: "CALLBACK_EXPO init_state < 1024" by (simp add: init_state_def)
  obtain r s' where
    d: "recur_record_all_licenses (Suc (Suc 0)) world_AB ''A'' init_state = Some (r, s')"
    by (simp add: eval_defs world_AB_def)
  have v: "min (backoff_value (randint world_flaky (rand_calls init_state))
      (CALLBACK_EXPO init_state)) MAX_WAIT = 3 / 2"
    by (simp add: eval_defs world_flaky_def)
  have "slept s' = slept init_state \<and> CALLBACK_EXPO s' = CALLBACK_EXPO init_state"
    using d backoff_only_when_asked [where w = world_AB and s = init_state
        and fuel = "Suc (Suc 0)" and r = r and s' = s'] by blast
  then show ?thesis
    using a b c d v
      backoff_only_when_asked [where w = world_flaky and license = "''A''" and s = init_state
        and e = RequestException and e' = RequestException and fuel = 0]
    by (simp add: init_state_def)
qed

text \<open>
  Claim C3, as stated, fails. In a world whose first answer fails and whose later answers
  are well formed, the run ends with \<^verbatim>\<open>UnboundLocalError\<close> after one request and no
  sleep. Called with \<^verbatim>\<open>eb\<close> set, \<^verbatim>\<open>get_subcategories\<close> does wait and retry, and the
  retried call returns the list \<^verbatim>\<open>["B"]\<close>, but the caller is given \<^verbatim>\<open>None\<close>.
\<close>

theorem transient_failure_not_retried:
  "map_option fst (recur_record_all_licenses (Suc (Suc 0)) world_flaky ''A'' init_state)
     = Some (Raise UnboundLocalError)
 \<and> map_option (requests \<circ> snd)
       (recur_record_all_licenses (Suc (Suc 0)) world_flaky ''A'' init_state)
     = Some [get_subcat_request_url ''A'']
 \<and> map_option (slept \<circ> snd)
       (recur_record_all_licenses (Suc (Suc 0)) world_flaky ''A'' init_state) = Some []
 \<and> fst (get_subcategories world_flaky ''A'' True init_state) = Return None
 \<and> fst (get_subcategories world_flaky ''A'' False
        (snd (expo_backoff world_flaky
           (init_state\<lparr>requests := [get_subcat_request_url ''A'']\<rparr>)))) = Return (Some [''B''])"
  by (simp add: eval_defs world_flaky_def world_AB_def)

subsection \<open>A content request answered without a query\<close>

text \<open>
  Claim C2 on the script. The default root has the subcategories \<^verbatim>\<open>X\<close> and \<^verbatim>\<open>Y\<close>, and
  the content request for \<^verbatim>\<open>X\<close> is answered by a document without \<^verbatim>\<open>query\<close>. The
  script prints its diagnostic and writes no row for \<^verbatim>\<open>X\<close>, but then
  \<^verbatim>\<open>record_license_data\<close> subscripts the \<^verbatim>\<open>None\<close> it was given: the
  \<^verbatim>\<open>TypeError\<close> ends the run with exit status 1, and \<^verbatim>\<open>Y\<close>, whose content
  request would have been answered, is never requested.
\<close>

theorem empty_result_aborts_run:
  "script (Suc (Suc 0)) world_empty_result init_state =
     Some (1,
       \<lparr>CALLBACK_EXPO = 0,
        LICENSE_CACHE = [''Free_Creative_Commons_licenses''],
        requests = [get_subcat_request_url ''Free_Creative_Commons_licenses'',
                    get_content_request_url ''Free_Creative_Commons_licenses'',
                    get_subcat_request_url ''X'', get_content_request_url ''X''],
        rand_calls = 0, slept = [],
        data_file = [''LICENSE TYPE,File Count, Page Count'' @ [CHR 0x0A],
                     ''Free_Creative_Commons_licenses,2,4'' @ [CHR 0x0A]],
        stdout = [Text ''DEBUG Logged Free_Creative_Commons_licenses from Free_Creative_Commons_licenses'',
                  Repr no_query_doc,
                  Text ''This query will not be processed due to empty result.''],
        stderr = unhandled\<rparr>)
 \<and> fst (record_license_data world_empty_result ''X''
        ''Free_Creative_Commons_licenses/X'' init_state) = Raise TypeError
 \<and> fst (get_license_contents world_empty_result ''Y'' False init_state)
     = Return (Some \<lparr>total_file_cnt = 0, total_page_cnt = 1\<rparr>)"
  by (simp add: eval_defs world_empty_result_def)

subsection \<open>A category that is already in the cache\<close>

text \<open>
  Claim C1, as the code has it. \<^verbatim>\<open>recur_record_all_licenses\<close> requests the
  subcategories before it looks at \<^verbatim>\<open>LICENSE_CACHE\<close>. On a category that is in the cache
  the call therefore issues exactly one request, the listing of that category, whatever
  the alias and whatever the remote answers; it writes nothing to the report, leaves the
  cache as it is, never sleeps and does not descend (one level of recursion is enough), and
  it returns as soon as the listing call has returned.
\<close>

theorem visited_category_one_request:
  assumes "cur_cat_of alias \<in> set (LICENSE_CACHE s)"
  shows "\<exists>r s'. recur_record_all_licenses (Suc fuel) w alias s = Some (r, s')
    \<and> requests s' = requests s @ [get_subcat_request_url (cur_cat_of alias)]
    \<and> data_file s' = data_file s
    \<and> LICENSE_CACHE s' = LICENSE_CACHE s
    \<and> slept s' = slept s
    \<and> (get_subcategories w (cur_cat_of alias) False s = (r', s'') \<and> (\<exists>v. r' = Return v)
         \<longrightarrow> r = Return () \<and> s' = s'')"
proof (cases "get_subcategories w (cur_cat_of alias) False s")
  case (Pair sr s1)
  note fr = get_subcategories_False_frame [OF Pair]
  have vis: "cur_cat_of alias \<in> set (LICENSE_CACHE s1)" using assms fr by simp
  show ?thesis
  proof (cases sr)
    case (Return subs)
    then have "recur_record_all_licenses (Suc fuel) w alias s = Some (Return (), s1)"
      using Pair vis by (simp add: Let_def)
    then show ?thesis using fr Pair Return by auto
  next
    case (Raise x)
    then have "recur_record_all_licenses (Suc fuel) w alias s = Some (Raise x, s1)"
      using Pair by (simp add: Let_def)
    then show ?thesis using fr Pair Raise by auto
  next
    case (Exit c)
    then have "recur_record_all_licenses (Suc fuel) w alias s = Some (Exit c, s1)"
      using Pair by (simp add: Let_def)
    then show ?thesis using fr Pair Exit by auto
  qed
qed

theorem visited_category_one_request_witness:
  "cur_cat_of ''Root/A'' \<in> set (LICENSE_CACHE (init_state\<lparr>LICENSE_CACHE := [''A'']\<rparr>))
 \<and> recur_record_all_licenses (Suc 0) world_AB ''Root/A'' (init_state\<lparr>LICENSE_CACHE := [''A'']\<rparr>)
     = Some (Return (),
         init_state\<lparr>LICENSE_CACHE := [''A''], requests := [get_subcat_request_url ''A'']\<rparr>)"
proof -
  have v: "cur_cat_of ''Root/A'' \<in> set (LICENSE_CACHE (init_state\<lparr>LICENSE_CACHE := [''A'']\<rparr>))"
    by (simp add: cur_cat_of_def)
  have c: "cur_cat_of ''Root/A'' = ''A''" by (simp add: cur_cat_of_def)
  obtain sb where g: "get_subcategories world_AB (cur_cat_of ''Root/A'') False
      (init_state\<lparr>LICENSE_CACHE := [''A'']\<rparr>) = (Return (Some [''B'']), sb)"
    and sb: "sb = init_state\<lparr>LICENSE_CACHE := [''A''], requests := [get_subcat_request_url ''A'']\<rparr>"
    by (simp add: eval_defs world_AB_def)
  from visited_category_one_request [OF v, where w = world_AB and fuel = 0
      and r' = "Return (Some [''B''])" and s'' = sb] g
  have "recur_record_all_licenses (Suc 0) world_AB ''Root/A'' (init_state\<lparr>LICENSE_CACHE := [''A'']\<rparr>)
     = Some (Return (), sb)"
    by auto
  then show ?thesis using v sb by simp
qed

text \<open>
  Claim C1, as stated, fails: with \<^verbatim>\<open>A\<close> in the cache, the call on \<^verbatim>\<open>A\<close> issues a
  request, so the number of requests is not what it was.
\<close>

theorem visited_category_still_requests:
  "cur_cat_of ''A'' \<in> set (LICENSE_CACHE (init_state\<lparr>LICENSE_CACHE := [''A'']\<rparr>))
 \<and> map_option (requests \<circ> snd)
      (recur_record_all_licenses (Suc 0) world_AB ''A'' (init_state\<lparr>LICENSE_CACHE := [''A'']\<rparr>))
     = Some [get_subcat_request_url ''A'']
 \<and> map_option (length \<circ> requests \<circ> snd)
      (recur_record_all_licenses (Suc 0) world_AB ''A'' (init_state\<lparr>LICENSE_CACHE := [''A'']\<rparr>))
     \<noteq> Some (length (requests (init_state\<lparr>LICENSE_CACHE := [''A'']\<rparr>)))"
  by (simp add: eval_defs world_AB_def)

subsection \<open>The traversal: rows, cache and termination\<close>

lemma py_split_not_Nil: "py_split sep s \<noteq> []"
  by (induction s) (auto split: list.splits)

lemma py_split_append:
  "py_split sep (a @ sep # x) = py_split sep a @ py_split sep x"
proof (induction a)
  case Nil
  then show ?case by simp
next
  case (Cons c cs)
  obtain p ps where "py_split sep cs = p # ps"
    using py_split_not_Nil [of sep cs] by (cases "py_split sep cs") auto
  then show ?case using Cons by simp
qed

lemma cur_cat_of_child: "cur_cat_of (a @ ''/'' @ x) = cur_cat_of x"
  by (simp add: cur_cat_of_def py_split_append py_split_not_Nil)



lemma rows_added_refl: "rows_added s s"
  unfolding rows_added_def by (rule exI [of _ "[]"]) simp

lemma rows_added_trans:
  assumes "rows_added a b" "rows_added b c"
  shows "rows_added a c"
proof -
  from assms(1) obtain r1 where 1: "data_file b = data_file a @ map report_row r1"
    "LICENSE_CACHE b = LICENSE_CACHE a @ map (\<lambda>row. cur_cat_of (fst row)) r1"
    "distinct (LICENSE_CACHE a) \<longrightarrow> distinct (LICENSE_CACHE b)"
    unfolding rows_added_def by blast
  from assms(2) obtain r2 where 2: "data_file c = data_file b @ map report_row r2"
    "LICENSE_CACHE c = LICENSE_CACHE b @ map (\<lambda>row. cur_cat_of (fst row)) r2"
    "distinct (LICENSE_CACHE b) \<longrightarrow> distinct (LICENSE_CACHE c)"
    unfolding rows_added_def by blast
  show ?thesis
    unfolding rows_added_def using 1 2 by (intro exI [of _ "r1 @ r2"]) simp
qed

lemma rows_added_one:
  assumes "data_file s' = data_file s @ [data_log a d @ [CHR 0x0A]]"
    and "LICENSE_CACHE s' = LICENSE_CACHE s @ [cur_cat_of a]"
    and "cur_cat_of a \<notin> set (LICENSE_CACHE s)"
  shows "rows_added s s'"
  unfolding rows_added_def using assms
  by (intro exI [of _ "[(a, d)]"]) (simp add: report_row_def)

lemma rows_added_same:
  assumes "data_file s' = data_file s" and "LICENSE_CACHE s' = LICENSE_CACHE s"
  shows "rows_added s s'"
  unfolding rows_added_def using assms by (intro exI [of _ "[]"]) simp

lemma recur_rows_added:
  "recur_record_all_licenses fuel w a s = Some (r, s') \<Longrightarrow> rows_added s s'"
proof (induction fuel arbitrary: a s r s')
  case 0
  then show ?case by simp
next
  case (Suc fuel)
  from Suc.prems show ?case
  proof (cases rule: recur_Suc_cases)
    case (listing_aborts sr)
    then show ?thesis by (intro rows_added_same) (simp_all add: get_subcategories_False_frame)
  next
    case (visited subs)
    then show ?thesis by (intro rows_added_same) (simp_all add: get_subcategories_False_frame)
  next
    case (record_aborts subs s1)
    then show ?thesis
      by (intro rows_added_same)
        (simp_all add: get_subcategories_False_frame record_license_data_frame)
  next
    case (no_list s1 s2 u)
    from record_license_data_frame(6) [OF no_list(3)] obtain d where
      "data_file s2 = data_file s1 @ [data_log a d @ [CHR 0x0A]]" by blast
    then show ?thesis using no_list
      by (intro rows_added_one [of _ _ a d])
        (simp_all add: get_subcategories_False_frame record_license_data_frame)
  next
    case (descends cat_list s1 s2 u)
    let ?s4 = "s2\<lparr>LICENSE_CACHE := LICENSE_CACHE s2 @ [cur_cat_of a],
             stdout := stdout s2 @
               [Text (''DEBUG '' @ ''Logged '' @ cur_cat_of a @ '' from '' @ a)]\<rparr>"
    from record_license_data_frame(6) [OF descends(3)] obtain d where
      "data_file s2 = data_file s1 @ [data_log a d @ [CHR 0x0A]]" by blast
    then have here: "rows_added s ?s4" using descends
      by (intro rows_added_one [of _ _ a d])
        (simp_all add: get_subcategories_False_frame record_license_data_frame)
    have "rows_added ?s4 s'"
      by (rule for_each_rel [where R = rows_added, OF rows_added_refl rows_added_trans _
            descends(4)]) (auto dest: Suc.IH)
    then show ?thesis using here rows_added_trans by blast
  qed
qed

lemma for_each_total:
  assumes "\<And>x t. x \<in> set xs \<Longrightarrow> P t \<Longrightarrow> \<exists>r t'. body x t = Some (r, t') \<and> P t'"
  shows "P s \<Longrightarrow> \<exists>r s'. for_each body xs s = Some (r, s')"
  using assms
proof (induction xs arbitrary: s)
  case Nil
  then show ?case by simp
next
  case (Cons x xs)
  from Cons.prems(2) [of x s] Cons.prems(1) obtain r1 s1 where
    b: "body x s = Some (r1, s1)" and p: "P s1" by auto
  show ?case
  proof (cases r1)
    case (Return u)
    have "\<exists>r s'. for_each body xs s1 = Some (r, s')"
      using p Cons.prems(2) by (intro Cons.IH) auto
    then show ?thesis using b Return by simp
  next
    case (Raise e)
    then show ?thesis using b by simp
  next
    case (Exit c)
    then show ?thesis using b by simp
  qed
qed

lemma card_unvisited_less:
  assumes "finite U" "c \<in> U" "c \<notin> A" "insert c A \<subseteq> B"
  shows "card (U - B) < card (U - A)"
proof -
  have "U - B \<subset> U - A" using assms by auto
  then show ?thesis using assms(1) by (intro psubset_card_mono) simp_all
qed

lemma recur_terminates:
  assumes fin: "finite U"
    and closed: "\<And>n c d cats x. c \<in> U \<Longrightarrow> remote w n (get_subcat_request_url c) = Json d \<Longrightarrow>
       subcategories_of d = Inr cats \<Longrightarrow> x \<in> set cats \<Longrightarrow> cur_cat_of x \<in> U"
  shows "cur_cat_of a \<in> U \<Longrightarrow> card (U - set (LICENSE_CACHE s)) < fuel \<Longrightarrow>
    \<exists>r s'. recur_record_all_licenses fuel w a s = Some (r, s')"
proof (induction fuel arbitrary: a s)
  case 0
  then show ?case by simp
next
  case (Suc fuel)
  let ?c = "cur_cat_of a"
  obtain sr s1 where g: "get_subcategories w ?c False s = (sr, s1)"
    by (cases "get_subcategories w ?c False s") auto
  note f1 = get_subcategories_False_frame [OF g]
  show ?case
  proof (cases sr)
    case (Return subs)
    show ?thesis
    proof (cases "?c \<in> set (LICENSE_CACHE s1)")
      case True
      then show ?thesis using g Return by (simp add: Let_def)
    next
      case False
      obtain rr s2 where rec: "record_license_data w ?c a s1 = (rr, s2)"
        by (cases "record_license_data w ?c a s1") auto
      note f2 = record_license_data_frame [OF rec]
      show ?thesis
      proof (cases rr)
        case ret: (Return u)
        let ?s4 = "s2\<lparr>LICENSE_CACHE := LICENSE_CACHE s2 @ [?c],
             stdout := stdout s2 @ [Text (''DEBUG '' @ ''Logged '' @ ?c @ '' from '' @ a)]\<rparr>"
        show ?thesis
        proof (cases subs)
          case None
          then show ?thesis using g Return False rec ret by (simp add: Let_def)
        next
          case (Some cat_list)
          from get_subcategories_Some [OF g [unfolded Return Some]] obtain d where
            d: "remote w (length (requests s)) (get_subcat_request_url ?c) = Json d"
            "subcategories_of d = Inr cat_list" by blast
          have kids: "cur_cat_of x \<in> U" if "x \<in> set cat_list" for x
            using closed [OF Suc.prems(1) d that] .
          have step: "\<exists>r t'. recur_record_all_licenses fuel w (a @ ''/'' @ x) t = Some (r, t')
              \<and> set (LICENSE_CACHE ?s4) \<subseteq> set (LICENSE_CACHE t')"
            if x: "x \<in> set cat_list" and t: "set (LICENSE_CACHE ?s4) \<subseteq> set (LICENSE_CACHE t)"
            for x t
          proof -
            have "insert ?c (set (LICENSE_CACHE s)) \<subseteq> set (LICENSE_CACHE t)"
              using t f1 f2 by simp
            then have "card (U - set (LICENSE_CACHE t)) < card (U - set (LICENSE_CACHE s))"
              using False f1 by (intro card_unvisited_less [OF fin Suc.prems(1)]) simp_all
            then have small: "card (U - set (LICENSE_CACHE t)) < fuel"
              using Suc.prems(2) by simp
            have "cur_cat_of (a @ ''/'' @ x) \<in> U"
              using kids [OF x] by (simp only: cur_cat_of_child)
            from Suc.IH [OF this small] obtain r t' where
              run: "recur_record_all_licenses fuel w (a @ ''/'' @ x) t = Some (r, t')" by blast
            from recur_rows_added [OF run] have "set (LICENSE_CACHE t) \<subseteq> set (LICENSE_CACHE t')"
              unfolding rows_added_def by auto
            then show ?thesis using run t by blast
          qed
          have "\<exists>r s'. for_each (\<lambda>cats. recur_record_all_licenses fuel w (a @ ''/'' @ cats))
              cat_list ?s4 = Some (r, s')"
            by (rule for_each_total
                [where P = "\<lambda>t. set (LICENSE_CACHE ?s4) \<subseteq> set (LICENSE_CACHE t)"])
              (use step in auto)
          then show ?thesis using g Return False rec ret Some by (simp add: Let_def)
        qed
      next
        case (Raise x)
        then show ?thesis using g Return False rec by (simp add: Let_def)
      next
        case (Exit c)
        then show ?thesis using g Return False rec by (simp add: Let_def)
      qed
    qed
  next
    case (Raise x)
    then show ?thesis using g by (simp add: Let_def)
  next
    case (Exit c)
    then show ?thesis using g by (simp add: Let_def)
  qed
qed

lemma for_each_mono:
  assumes "\<And>x t y. x \<in> set xs \<Longrightarrow> body x t = Some y \<Longrightarrow> body' x t = Some y"
  shows "for_each body xs s = Some y \<Longrightarrow> for_each body' xs s = Some y"
  using assms
proof (induction xs arbitrary: s)
  case Nil
  then show ?case by simp
next
  case (Cons x xs)
  from Cons.prems(1) obtain r1 s1 where b: "body x s = Some (r1, s1)"
    by (cases "body x s") auto
  then have b': "body' x s = Some (r1, s1)" using Cons.prems(2) by simp
  show ?case
  proof (cases r1)
    case (Return u)
    then have "for_each body xs s1 = Some y" using Cons.prems(1) b by simp
    then have "for_each body' xs s1 = Some y" using Cons.prems(2) by (intro Cons.IH) auto
    then show ?thesis using b' Return by simp
  next
    case (Raise e)
    then show ?thesis using Cons.prems(1) b b' by auto
  next
    case (Exit c)
    then show ?thesis using Cons.prems(1) b b' by auto
  qed
qed

lemma recur_fuel_mono:
  "recur_record_all_licenses n w a s = Some y \<Longrightarrow> n \<le> m \<Longrightarrow>
     recur_record_all_licenses m w a s = Some y"
proof (induction n arbitrary: m a s y)
  case 0
  then show ?case by simp
next
  case (Suc n)
  from Suc.prems(2) obtain m' where m: "m = Suc m'" and le: "n \<le> m'"
    by (cases m) auto
  have inner: "for_each (\<lambda>cats. recur_record_all_licenses m' w (a @ ''/'' @ cats)) xs t = Some z"
    if "for_each (\<lambda>cats. recur_record_all_licenses n w (a @ ''/'' @ cats)) xs t = Some z"
    for xs t z
    using that by (rule for_each_mono [rotated]) (use Suc.IH le in blast)
  show ?case
    using Suc.prems(1) unfolding m
    by (auto simp: Let_def inner [simplified]
        split: prod.splits result.splits if_splits option.splits)
qed

text \<open>
  Claim C4. Take any finite set \<open>U\<close> of categories that holds the category the traversal
  starts from and, for each of its categories, the categories of all the names that any
  answer of the remote lists for it: a finite category graph, with or without cycles and
  shared subcategories. Started with an empty cache, the traversal terminates (from some
  recursion depth on, its outcome no longer depends on the bound), the lines it appends
  to the report are the rows of a list of aliases and metrics, and the categories of these
  aliases are pairwise distinct: no category is recorded twice. In the cycle where \<^verbatim>\<open>A\<close>
  lists \<^verbatim>\<open>B\<close> and \<^verbatim>\<open>B\<close> lists \<^verbatim>\<open>A\<close>, the run returns after five requests and the
  report holds, after the header, one row for \<^verbatim>\<open>A\<close> and one for \<^verbatim>\<open>B\<close>.
\<close>

theorem traversal_terminates_once:
  "(finite U \<and> cur_cat_of alias \<in> U
      \<and> (\<forall>n c d cats x. c \<in> U \<and> remote w n (get_subcat_request_url c) = Json d
            \<and> subcategories_of d = Inr cats \<and> x \<in> set cats \<longrightarrow> cur_cat_of x \<in> U)
      \<and> LICENSE_CACHE s = []
    \<longrightarrow> (\<exists>fuel r s' rows.
           (\<forall>k. recur_record_all_licenses (fuel + k) w alias s = Some (r, s'))
         \<and> data_file s' = data_file s @ map report_row rows
         \<and> LICENSE_CACHE s' = map (\<lambda>row. cur_cat_of (fst row)) rows
         \<and> distinct (map (\<lambda>row. cur_cat_of (fst row)) rows)))
 \<and> recur_record_all_licenses (Suc (Suc (Suc 0))) world_cycle ''A'' (set_up_data_file init_state) =
     Some (Return (),
       \<lparr>CALLBACK_EXPO = 0, LICENSE_CACHE = [''A'', ''B''],
        requests = [get_subcat_request_url ''A'', get_content_request_url ''A'',
                    get_subcat_request_url ''B'', get_content_request_url ''B'',
                    get_subcat_request_url ''A''],
        rand_calls = 0, slept = [],
        data_file = [''LICENSE TYPE,File Count, Page Count'' @ [CHR 0x0A],
                     ''A,2,4'' @ [CHR 0x0A], ''A/B,0,1'' @ [CHR 0x0A]],
        stdout = [Text ''DEBUG Logged A from A'', Text ''DEBUG Logged B from A/B''],
        stderr = []\<rparr>)"
proof (intro conjI impI)
  assume h: "finite U \<and> cur_cat_of alias \<in> U
      \<and> (\<forall>n c d cats x. c \<in> U \<and> remote w n (get_subcat_request_url c) = Json d
            \<and> subcategories_of d = Inr cats \<and> x \<in> set cats \<longrightarrow> cur_cat_of x \<in> U)
      \<and> LICENSE_CACHE s = []"
  then have fin: "finite U" and root: "cur_cat_of alias \<in> U" and fresh: "LICENSE_CACHE s = []"
    by simp_all
  have closed: "cur_cat_of x \<in> U"
    if "c \<in> U" "remote w n (get_subcat_request_url c) = Json d"
      "subcategories_of d = Inr cats" "x \<in> set cats" for n c d cats x
    using h that by blast
  have "\<exists>r s'. recur_record_all_licenses (Suc (card U)) w alias s = Some (r, s')"
  proof (rule recur_terminates [OF fin _ root])
    show "cur_cat_of x \<in> U"
      if "c \<in> U" "remote w n (get_subcat_request_url c) = Json d"
        "subcategories_of d = Inr cats" "x \<in> set cats" for n c d cats x
      using closed that .
    show "card (U - set (LICENSE_CACHE s)) < Suc (card U)" using fresh by simp
  qed
  then obtain r s' where
    run: "recur_record_all_licenses (Suc (card U)) w alias s = Some (r, s')" by blast
  from recur_rows_added [OF run] obtain rows where
    rows: "data_file s' = data_file s @ map report_row rows"
      "LICENSE_CACHE s' = LICENSE_CACHE s @ map (\<lambda>row. cur_cat_of (fst row)) rows"
      "distinct (LICENSE_CACHE s) \<longrightarrow> distinct (LICENSE_CACHE s')"
    unfolding rows_added_def by blast
  have later: "recur_record_all_licenses (Suc (card U) + k) w alias s = Some (r, s')" for k
    using run by (rule recur_fuel_mono) simp
  have "LICENSE_CACHE s' = map (\<lambda>row. cur_cat_of (fst row)) rows"
    and "distinct (map (\<lambda>row. cur_cat_of (fst row)) rows)"
    using rows fresh by simp_all
  then show "\<exists>fuel r s' rows.
           (\<forall>k. recur_record_all_licenses (fuel + k) w alias s = Some (r, s'))
         \<and> data_file s' = data_file s @ map report_row rows
         \<and> LICENSE_CACHE s' = map (\<lambda>row. cur_cat_of (fst row)) rows
         \<and> distinct (map (\<lambda>row. cur_cat_of (fst row)) rows)"
    using later rows(1) by blast
next
  show "recur_record_all_licenses (Suc (Suc (Suc 0))) world_cycle ''A'' (set_up_data_file init_state) =
     Some (Return (),
       \<lparr>CALLBACK_EXPO = 0, LICENSE_CACHE = [''A'', ''B''],
        requests = [get_subcat_request_url ''A'', get_content_request_url ''A'',
                    get_subcat_request_url ''B'', get_content_request_url ''B'',
                    get_subcat_request_url ''A''],
        rand_calls = 0, slept = [],
        data_file = [''LICENSE TYPE,File Count, Page Count'' @ [CHR 0x0A],
                     ''A,2,4'' @ [CHR 0x0A], ''A/B,0,1'' @ [CHR 0x0A]],
        stdout = [Text ''DEBUG Logged A from A'', Text ''DEBUG Logged B from A/B''],
        stderr = []\<rparr>)"
    by (simp add: eval_defs world_cycle_def)
qed

lemma world_cycle_closed:
  assumes "c \<in> {''A'', ''B''}"
    and "remote world_cycle n (get_subcat_request_url c) = Json d"
    and "subcategories_of d = Inr cats" and "x \<in> set cats"
  shows "cur_cat_of x \<in> {''A'', ''B''}"
proof -
  from assms(1) consider "c = ''A''" | "c = ''B''" by auto
  then show ?thesis
  proof cases
    case 1
    then have "d = listing_doc [''Category:B'']"
      using assms(2) by (simp add: world_cycle_def remote_of_def get_subcat_request_url_def)
    then have "cats = [''B'']"
      using assms(3) by (simp add: eval_defs)
    then show ?thesis using assms(4) by (simp add: cur_cat_of_def)
  next
    case 2
    then have "d = listing_doc [''Category:A'']"
      using assms(2) by (simp add: world_cycle_def remote_of_def get_subcat_request_url_def)
    then have "cats = [''A'']"
      using assms(3) by (simp add: eval_defs)
    then show ?thesis using assms(4) by (simp add: cur_cat_of_def)
  qed
qed

theorem traversal_terminates_once_witness:
  "finite {''A'', ''B''} \<and> cur_cat_of ''A'' \<in> {''A'', ''B''}
 \<and> LICENSE_CACHE init_state = []
 \<and> (\<exists>fuel r s' rows.
       (\<forall>k. recur_record_all_licenses (fuel + k) world_cycle ''A'' init_state = Some (r, s'))
     \<and> data_file s' = data_file init_state @ map report_row rows
     \<and> LICENSE_CACHE s' = map (\<lambda>row. cur_cat_of (fst row)) rows
     \<and> distinct (map (\<lambda>row. cur_cat_of (fst row)) rows))
 \<and> map_option (data_file \<circ> snd)
      (recur_record_all_licenses (Suc (Suc (Suc 0))) world_cycle ''A'' init_state)
     = Some [''A,2,4'' @ [CHR 0x0A], ''A/B,0,1'' @ [CHR 0x0A]]"
proof -
  have 1: "finite {''A'', ''B''}" by simp
  have 2: "cur_cat_of ''A'' \<in> {''A'', ''B''}" by (simp add: cur_cat_of_def)
  have 3: "\<forall>n c d cats x. c \<in> {''A'', ''B''}
      \<and> remote world_cycle n (get_subcat_request_url c) = Json d
      \<and> subcategories_of d = Inr cats \<and> x \<in> set cats \<longrightarrow> cur_cat_of x \<in> {''A'', ''B''}"
    using world_cycle_closed by blast
  have 4: "LICENSE_CACHE init_state = []" by (simp add: init_state_def)
  have 5: "map_option (data_file \<circ> snd)
      (recur_record_all_licenses (Suc (Suc (Suc 0))) world_cycle ''A'' init_state)
     = Some [''A,2,4'' @ [CHR 0x0A], ''A/B,0,1'' @ [CHR 0x0A]]"
    by (simp add: eval_defs world_cycle_def)
  from traversal_terminates_once [where U = "{''A'', ''B''}" and w = world_cycle
      and s = init_state] 1 2 3 4
  have "\<exists>fuel r s' rows.
       (\<forall>k. recur_record_all_licenses (fuel + k) world_cycle ''A'' init_state = Some (r, s'))
     \<and> data_file s' = data_file init_state @ map report_row rows
     \<and> LICENSE_CACHE s' = map (\<lambda>row. cur_cat_of (fst row)) rows
     \<and> distinct (map (\<lambda>row. cur_cat_of (fst row)) rows)"
    by blast
  then show ?thesis using 1 2 4 5 by blast
qed

subsection \<open>The order of the report\<close>










end
